theory Spec2Isabelle
  imports Main "HOL-Library.Word"
begin

unbundle bit_operations_syntax

section \<open>The MIDI SysEx bootloader (firmware/bootloader.cpp)\<close>

text \<open>
  The embedding follows the C++ source function by function. The global variables
  \<open>state\<close>, \<open>msg\<close>, \<open>payload_size\<close>, the locals \<open>checksum\<close> and \<open>bytes_read\<close> of
  \<open>loop\<close>, the flash array and the bytes written to the UART form one record that
  every function takes and returns.

  \<^item> \<open>uint8_t\<close> is \<open>8 word\<close>. The two \<open>uint16_t\<close> counters \<open>payload_size\<close> and
    \<open>bytes_read\<close> are natural numbers, every increment and decrement reduced
    modulo \<open>2 ^ 16\<close>.
  \<^item> \<open>message_t\<close> overlays \<open>buffer\<close> with the typed fields:
    \<open>command\<close> is \<open>buffer[0]\<close>; \<open>checksum\<close>, \<open>error\<close> and \<open>page_no\<close> are
    \<open>buffer[1]\<close>; \<open>page_data\<close> starts at \<open>buffer[2]\<close>. The model keeps the
    buffer only and reads the fields at these indices. \<open>header\<close> is a separate array.
  \<^item> \<open>SPM_PAGESIZE\<close> and \<open>FLASHEND\<close> come from the device header \<open>avr/io.h\<close>; they
    are the two fields of the parameter \<open>device\<close>.
  \<^item> An array access outside its bounds is undefined in C++; one iteration of the loop
    returns \<open>None\<close> there.
  \<^item> \<open>program_main()\<close> jumps to address 0 and the bootloader stops running: the model
    sets the flag \<open>jumped\<close>, and \<open>loop_run\<close> reads no further byte.
\<close>

type_synonym uint8_t = "8 word"
type_synonym uint16_t = "16 word"

record device =
  SPM_PAGESIZE :: nat
  FLASHEND :: nat

text \<open>
  \<open>NUM_PAGES\<close> is \<open>((FLASHEND + 1) / SPM_PAGESIZE)\<close>. The source computes it in the
  16-bit \<open>int\<close> of the AVR; the quotient of natural numbers below is that value as
  long as \<open>FLASHEND + 1\<close> fits this \<open>int\<close>, that is below \<open>2 ^ 15\<close>. The predicate
  \<open>device_ok\<close> below states this bound, and every theorem of a claim that depends on
  the value of \<open>NUM_PAGES\<close> assumes it.
\<close>

definition NUM_PAGES :: "device \<Rightarrow> nat" where
  "NUM_PAGES d = (FLASHEND d + 1) div SPM_PAGESIZE d"

definition MIDI_ID :: uint8_t where "MIDI_ID = 0x70"
definition VERSION :: uint8_t where "VERSION = 0x01"

datatype state_t =
  STATE_IDLE | STATE_MATCHING_HEADER | STATE_READING_BODY | STATE_EXPECTING_END

text \<open>The enumerators' integer values, for the comparison \<open>state < STATE_READING_BODY\<close>.\<close>

fun state_value :: "state_t \<Rightarrow> nat" where
  "state_value STATE_IDLE = 0"
| "state_value STATE_MATCHING_HEADER = 1"
| "state_value STATE_READING_BODY = 2"
| "state_value STATE_EXPECTING_END = 3"

definition COMMAND_PING :: uint8_t where "COMMAND_PING = 0x10"
definition COMMAND_WRITE :: uint8_t where "COMMAND_WRITE = 0x11"
definition COMMAND_READ :: uint8_t where "COMMAND_READ = 0x12"
definition COMMAND_VERIFY :: uint8_t where "COMMAND_VERIFY = 0x13"
definition COMMAND_QUIT :: uint8_t where "COMMAND_QUIT = 0x14"
definition REPLY_SUCCESS :: uint8_t where "REPLY_SUCCESS = 0x20"
definition REPLY_ERROR :: uint8_t where "REPLY_ERROR = 0x21"
definition REPLY_READ :: uint8_t where "REPLY_READ = 0x22"
definition REPLY_VERIFY :: uint8_t where "REPLY_VERIFY = 0x23"

definition ERROR_NONE :: uint8_t where "ERROR_NONE = 0"
definition ERROR_HEADER_MISMATCH :: uint8_t where "ERROR_HEADER_MISMATCH = 1"
definition ERROR_INVALID_FORMAT :: uint8_t where "ERROR_INVALID_FORMAT = 2"
definition ERROR_INCOMPLETE_MESSAGE :: uint8_t where "ERROR_INCOMPLETE_MESSAGE = 3"
definition ERROR_INVALID_NIBBLE :: uint8_t where "ERROR_INVALID_NIBBLE = 4"
definition ERROR_INVALID_CHECKSUM :: uint8_t where "ERROR_INVALID_CHECKSUM = 5"
definition ERROR_UNKNOWN_COMMAND :: uint8_t where "ERROR_UNKNOWN_COMMAND = 6"
definition ERROR_INVALID_PAYLOAD_SIZE :: uint8_t where "ERROR_INVALID_PAYLOAD_SIZE = 7"
definition ERROR_INVALID_PAGE_NUMBER :: uint8_t where "ERROR_INVALID_PAGE_NUMBER = 8"

text \<open>\<open>sizeof(msg.buffer)\<close>: \<open>SPM_PAGESIZE + sizeof(page_no) + sizeof(command) + 1\<close>.\<close>

definition sizeof_buffer :: "device \<Rightarrow> nat" where
  "sizeof_buffer d = SPM_PAGESIZE d + 1 + 1 + 1"

record machine =
  state :: state_t
  msg_header :: "uint8_t list"
  msg_buffer :: "uint8_t list"
  payload_size :: nat
  checksum :: uint8_t
  bytes_read :: nat
  flash :: "nat \<Rightarrow> uint8_t"
  uart_out :: "uint8_t list"
  jumped :: bool

subsection \<open>UART and replies\<close>

definition uart_putc :: "uint8_t \<Rightarrow> machine \<Rightarrow> machine" where
  "uart_putc byte m = m\<lparr>uart_out := uart_out m @ [byte]\<rparr>"

text \<open>
  The body of the second loop of \<open>send_msg\<close>: a byte goes out as its high nibble, then
  its low nibble, and is XORed into the checksum.
\<close>

fun send_bytes :: "uint8_t list \<Rightarrow> uint8_t \<Rightarrow> machine \<Rightarrow> uint8_t \<times> machine" where
  "send_bytes [] cs m = (cs, m)"
| "send_bytes (b # bs) cs m =
     send_bytes bs (cs XOR b) (uart_putc (b AND 0x0f) (uart_putc (drop_bit 4 b) m))"

text \<open>
  \<open>send_msg(uint8_t params_size)\<close>: the argument and \<open>msg_size\<close> are both \<open>uint8_t\<close>,
  so each is reduced modulo 256. The loop sends \<open>msg.buffer[0 .. msg_size - 1]\<close>; its
  callers pass 0, 1 or \<open>SPM_PAGESIZE\<close>, so \<open>msg_size\<close> stays within the buffer.
\<close>

definition send_msg :: "nat \<Rightarrow> machine \<Rightarrow> machine" where
  "send_msg params_size m =
     (let m1 = uart_putc 0xf0 m;
          m2 = fold uart_putc (take 3 (msg_header m1)) m1;
          msg_size = (1 + params_size mod 256) mod 256;
          (cs, m3) = send_bytes (take msg_size (msg_buffer m2)) 0 m2;
          m4 = uart_putc (drop_bit 4 cs) m3;
          m5 = uart_putc (cs AND 0x0f) m4
      in uart_putc 0xf7 m5)"

definition reply_success :: "machine \<Rightarrow> machine" where
  "reply_success m = send_msg 0 (m\<lparr>msg_buffer := (msg_buffer m)[0 := REPLY_SUCCESS]\<rparr>)"

definition reply_error :: "uint8_t \<Rightarrow> machine \<Rightarrow> machine" where
  "reply_error err m =
     send_msg 1 (m\<lparr>msg_buffer := (msg_buffer m)[0 := REPLY_ERROR, 1 := err]\<rparr>)"

definition reply_data :: "uint8_t \<Rightarrow> nat \<Rightarrow> machine \<Rightarrow> machine" where
  "reply_data command data_size m =
     send_msg data_size (m\<lparr>msg_buffer := (msg_buffer m)[0 := command]\<rparr>)"

subsection \<open>Flash primitives\<close>

text \<open>
  The macros \<open>boot_page_erase\<close>, \<open>boot_page_fill\<close>, \<open>boot_page_write\<close> and
  \<open>pgm_read_byte\<close> come from avr-libc and are not part of the repository. The
  specification names them as opaque primitives: erase-and-program a page from a
  buffer, read a page. Flash is a function from byte addresses to bytes.
\<close>

text \<open>
  Modelled from the spec: \<open>boot_page_erase\<close> (avr/boot.h, missing) sets the bytes of
  the page that starts at \<open>page\<close> to \<open>0xff\<close>.
\<close>

definition boot_page_erase :: "device \<Rightarrow> nat \<Rightarrow> (nat \<Rightarrow> uint8_t) \<Rightarrow> (nat \<Rightarrow> uint8_t)" where
  "boot_page_erase d page fl =
     (\<lambda>a. if page \<le> a \<and> a < page + SPM_PAGESIZE d then 0xff else fl a)"

text \<open>
  Modelled from the spec: \<open>boot_page_fill\<close> (avr/boot.h, missing) stores a 16-bit
  word, low byte first, at a byte offset of the temporary page buffer.
\<close>

definition boot_page_fill :: "nat \<Rightarrow> uint16_t \<Rightarrow> (nat \<Rightarrow> uint8_t) \<Rightarrow> (nat \<Rightarrow> uint8_t)" where
  "boot_page_fill addr w tmp = tmp(addr := ucast w, addr + 1 := ucast (drop_bit 8 w))"

text \<open>
  Modelled from the spec: \<open>boot_page_write\<close> (avr/boot.h, missing) copies the temporary
  page buffer into the page that starts at \<open>page\<close>.
\<close>

definition boot_page_write ::
  "device \<Rightarrow> nat \<Rightarrow> (nat \<Rightarrow> uint8_t) \<Rightarrow> (nat \<Rightarrow> uint8_t) \<Rightarrow> (nat \<Rightarrow> uint8_t)" where
  "boot_page_write d page tmp fl =
     (\<lambda>a. if page \<le> a \<and> a < page + SPM_PAGESIZE d then tmp (a - page) else fl a)"

text \<open>
  Modelled from the spec: \<open>pgm_read_byte\<close> (avr/pgmspace.h, missing) reads the flash
  byte at an address.
\<close>

definition pgm_read_byte :: "nat \<Rightarrow> (nat \<Rightarrow> uint8_t) \<Rightarrow> uint8_t" where
  "pgm_read_byte addr fl = fl addr"

subsection \<open>Commands\<close>

text \<open>\<open>msg.page_no * SPM_PAGESIZE\<close>, the byte address of the page.\<close>

definition page_address :: "device \<Rightarrow> machine \<Rightarrow> nat" where
  "page_address d m = unat (msg_buffer m ! 1) * SPM_PAGESIZE d"

text \<open>
  The fill loop of \<open>command_write\<close>. The pointer \<open>buffer\<close> starts at \<open>msg.page_data\<close>,
  that is \<open>msg.buffer + 2\<close>, and advances by two per iteration, as \<open>addr\<close> does.
\<close>

function fill_loop ::
  "device \<Rightarrow> uint8_t list \<Rightarrow> nat \<Rightarrow> (nat \<Rightarrow> uint8_t) \<Rightarrow> (nat \<Rightarrow> uint8_t)" where
  "fill_loop d buf addr tmp =
     (if addr < SPM_PAGESIZE d then
        (let w0 = (ucast (buf ! (2 + addr)) :: uint16_t);
             w = w0 + push_bit 8 (ucast (buf ! (2 + addr + 1)))
         in fill_loop d buf (addr + 2) (boot_page_fill addr w tmp))
      else tmp)"
  by pat_completeness auto
termination
  by (relation "measure (\<lambda>(d, buf, addr, tmp). SPM_PAGESIZE d - addr)") auto

declare fill_loop.simps [simp del]

definition command_write :: "device \<Rightarrow> machine \<Rightarrow> machine" where
  "command_write d m =
     (let page = page_address d m;
          fl1 = boot_page_erase d page (flash m);
          tmp = fill_loop d (msg_buffer m) 0 (\<lambda>a. 0xff);
          fl2 = boot_page_write d page tmp fl1
      in m\<lparr>flash := fl2\<rparr>)"

text \<open>
  The loop of \<open>command_read\<close>, counted by the number \<open>n\<close> of addresses still to read:
  \<open>*buffer++ = pgm_read_byte(addr)\<close> with \<open>buffer\<close> starting at \<open>&msg.page_no\<close>,
  that is \<open>msg.buffer + 1\<close>. The source counts with a \<open>uint16_t addr\<close>, which does
  not wrap for a page inside a flash of at most 32 KiB.
\<close>

fun read_loop :: "(nat \<Rightarrow> uint8_t) \<Rightarrow> nat \<Rightarrow> nat \<Rightarrow> nat \<Rightarrow> uint8_t list \<Rightarrow> uint8_t list" where
  "read_loop fl addr 0 i buf = buf"
| "read_loop fl addr (Suc n) i buf =
     read_loop fl (Suc addr) n (Suc i) (buf[i := pgm_read_byte addr fl])"

definition command_read :: "device \<Rightarrow> machine \<Rightarrow> machine" where
  "command_read d m =
     (let page = page_address d m
      in m\<lparr>msg_buffer := read_loop (flash m) page (SPM_PAGESIZE d) 1 (msg_buffer m)\<rparr>)"

text \<open>The loop of \<open>command_verify\<close>: \<open>msg.checksum ^= pgm_read_byte(addr)\<close>.\<close>

fun verify_loop :: "(nat \<Rightarrow> uint8_t) \<Rightarrow> nat \<Rightarrow> nat \<Rightarrow> uint8_t \<Rightarrow> uint8_t" where
  "verify_loop fl addr 0 cs = cs"
| "verify_loop fl addr (Suc n) cs =
     verify_loop fl (Suc addr) n (cs XOR pgm_read_byte addr fl)"

definition command_verify :: "device \<Rightarrow> machine \<Rightarrow> machine" where
  "command_verify d m =
     (let page = page_address d m
      in m\<lparr>msg_buffer := (msg_buffer m)[1 := verify_loop (flash m) page (SPM_PAGESIZE d) 0]\<rparr>)"

definition program_main :: "machine \<Rightarrow> machine" where
  "program_main m = m\<lparr>jumped := True\<rparr>"

text \<open>
  \<open>process_msg\<close>. The macro \<open>CHECK(EXPR, ERR)\<close> is \<open>if(!(EXPR)) { reply_error(ERR);
  break; }\<close>, so each \<open>CHECK\<close> is one \<open>if\<close> whose failing branch ends the case.
\<close>

definition process_msg :: "device \<Rightarrow> machine \<Rightarrow> machine" where
  "process_msg d m =
     (let command = msg_buffer m ! 0;
          page_no = msg_buffer m ! 1
      in if command = COMMAND_PING then
           (if \<not> (payload_size m = 0) then reply_error ERROR_INVALID_PAYLOAD_SIZE m
            else reply_success m)
         else if command = COMMAND_WRITE then
           (if \<not> (payload_size m = SPM_PAGESIZE d + 1)
              then reply_error ERROR_INVALID_PAYLOAD_SIZE m
            else if \<not> (unat page_no < NUM_PAGES d)
              then reply_error ERROR_INVALID_PAGE_NUMBER m
            else reply_success (command_write d m))
         else if command = COMMAND_VERIFY then
           (if \<not> (payload_size m = 1) then reply_error ERROR_INVALID_PAYLOAD_SIZE m
            else if \<not> (unat page_no < NUM_PAGES d)
              then reply_error ERROR_INVALID_PAGE_NUMBER m
            else reply_data REPLY_VERIFY 1 (command_verify d m))
         else if command = COMMAND_READ then
           (if \<not> (payload_size m = 1) then reply_error ERROR_INVALID_PAYLOAD_SIZE m
            else if \<not> (unat page_no < NUM_PAGES d)
              then reply_error ERROR_INVALID_PAGE_NUMBER m
            else reply_data REPLY_READ (SPM_PAGESIZE d) (command_read d m))
         else if command = COMMAND_QUIT then
           (if \<not> (payload_size m = 0) then reply_error ERROR_INVALID_PAYLOAD_SIZE m
            else program_main (reply_success m))
         else reply_error ERROR_UNKNOWN_COMMAND m)"

subsection \<open>The receive loop\<close>

text \<open>
  The state on entry to \<open>for(;;)\<close>. The global \<open>msg\<close> and \<open>payload_size\<close> are
  zero-initialised; the locals \<open>checksum\<close> and \<open>bytes_read\<close> are not initialised, so
  their first values \<open>cs0\<close> and \<open>br0\<close> are arbitrary.
\<close>

definition loop_init :: "device \<Rightarrow> (nat \<Rightarrow> uint8_t) \<Rightarrow> uint8_t \<Rightarrow> nat \<Rightarrow> machine" where
  "loop_init d fl cs0 br0 =
     \<lparr>state = STATE_IDLE, msg_header = [0x00, MIDI_ID, VERSION],
      msg_buffer = replicate (sizeof_buffer d) 0, payload_size = 0,
      checksum = cs0, bytes_read = br0, flash = fl, uart_out = [], jumped = False\<rparr>"

text \<open>
  The assignment \<open>state = STATE_IDLE\<close> that ends the handling of \<open>0xf7\<close>. It is not
  reached when \<open>process_msg\<close> has called \<open>program_main\<close>.
\<close>

definition end_frame :: "machine \<Rightarrow> machine" where
  "end_frame m = (if jumped m then m else m\<lparr>state := STATE_IDLE\<rparr>)"

text \<open>
  One iteration of \<open>for(;;)\<close> for the received \<open>byte\<close>. The result is \<open>None\<close> where
  the source would read \<open>msg.header[bytes_read]\<close> or write \<open>msg.buffer[payload_size]\<close>
  outside the array.
\<close>

definition loop_step :: "device \<Rightarrow> machine \<Rightarrow> uint8_t \<Rightarrow> machine option" where
  "loop_step d m byte =
     (if byte < 0x80 then
        (case state m of
           STATE_MATCHING_HEADER \<Rightarrow>
             if bytes_read m < 3 then
               (let m1 = m\<lparr>bytes_read := (bytes_read m + 1) mod 65536\<rparr>
                in if byte \<noteq> msg_header m ! bytes_read m then
                     Some ((reply_error ERROR_HEADER_MISMATCH m1)\<lparr>state := STATE_IDLE\<rparr>)
                   else if bytes_read m1 = 3 then
                     Some (m1\<lparr>state := STATE_READING_BODY, bytes_read := 0\<rparr>)
                   else Some m1)
             else None
         | STATE_READING_BODY \<Rightarrow>
             if byte > 0xf then
               Some ((reply_error ERROR_INVALID_NIBBLE m)\<lparr>state := STATE_IDLE\<rparr>)
             else if payload_size m < sizeof_buffer d then
               (let m1 = m\<lparr>bytes_read := (bytes_read m + 1) mod 65536\<rparr>;
                    m2 = (if bytes_read m mod 2 = 1 then
                            (let b = msg_buffer m1 ! payload_size m1 + byte
                             in m1\<lparr>msg_buffer := (msg_buffer m1)[payload_size m1 := b],
                                   checksum := checksum m1 XOR b,
                                   payload_size := (payload_size m1 + 1) mod 65536\<rparr>)
                          else
                            m1\<lparr>msg_buffer :=
                                 (msg_buffer m1)[payload_size m1 := push_bit 4 byte]\<rparr>)
                in if payload_size m2 = sizeof_buffer d
                   then Some (m2\<lparr>state := STATE_EXPECTING_END\<rparr>)
                   else Some m2)
             else None
         | STATE_EXPECTING_END \<Rightarrow>
             Some ((reply_error ERROR_INVALID_PAYLOAD_SIZE m)\<lparr>state := STATE_IDLE\<rparr>)
         | STATE_IDLE \<Rightarrow> Some m)
      else if byte = 0xf0 then
        (let m1 = (if state m \<noteq> STATE_IDLE then reply_error ERROR_INCOMPLETE_MESSAGE m
                   else m)
         in Some (m1\<lparr>state := STATE_MATCHING_HEADER, checksum := 0, bytes_read := 0,
                     payload_size := 0\<rparr>))
      else if byte = 0xf7 then
        (if state m \<noteq> STATE_IDLE then
           (if state_value (state m) < state_value STATE_READING_BODY \<or> payload_size m \<le> 1
              then Some (end_frame (reply_error ERROR_INVALID_FORMAT m))
            else if checksum m \<noteq> 0
              then Some (end_frame (reply_error ERROR_INVALID_CHECKSUM m))
            else
              Some (end_frame
                (process_msg d (m\<lparr>payload_size := (payload_size m + 65536 - 2) mod 65536\<rparr>))))
         else Some m)
      else Some m)"

text \<open>
  The loop over a finite sequence of received bytes. It stops when an iteration is
  undefined and when control has passed to the resident application.
\<close>

fun loop_run :: "device \<Rightarrow> machine \<Rightarrow> uint8_t list \<Rightarrow> machine option" where
  "loop_run d m [] = Some m"
| "loop_run d m (byte # bytes) =
     (if jumped m then Some m
      else case loop_step d m byte of
             None \<Rightarrow> None
           | Some m' \<Rightarrow> loop_run d m' bytes)"

subsection \<open>Wire format, well-formedness and concrete devices\<close>

text \<open>
  The nibble expansion of a byte sequence, as \<open>send_msg\<close> transmits it, and the running
  XOR of a byte sequence. Lemma \<open>send_bytes_eq\<close> below shows that the send loop
  produces exactly these.
\<close>

definition encode_bytes :: "uint8_t list \<Rightarrow> uint8_t list" where
  "encode_bytes bs = concat (map (\<lambda>b. [drop_bit 4 b, b AND 0x0f]) bs)"

definition xor_bytes :: "uint8_t list \<Rightarrow> uint8_t" where
  "xor_bytes bs = foldl (XOR) 0 bs"

text \<open>
  The bytes that the \<open>ReadingBody\<close> branch of \<open>loop\<close> assembles from a sequence of
  nibble bytes: the first byte of a pair is stored as \<open>byte << 4\<close>, the second is added
  to it; a last byte without a partner completes no byte. Lemma
  \<open>reading_body_decodes\<close> below shows that the loop computes this function.
\<close>

fun decode_nibbles :: "uint8_t list \<Rightarrow> uint8_t list" where
  "decode_nibbles (hi # lo # ns) = (push_bit 4 hi + lo) # decode_nibbles ns"
| "decode_nibbles ns = []"

text \<open>A reply on the wire: start byte, header, the expanded bytes and checksum, end byte.\<close>

definition wire_frame :: "uint8_t list \<Rightarrow> uint8_t list" where
  "wire_frame bs =
     [0xf0, 0x00, MIDI_ID, VERSION] @ encode_bytes bs @ encode_bytes [xor_bytes bs] @ [0xf7]"

text \<open>
  The message object as \<open>loop\<close> sets it up and every function keeps it: the header
  bytes of \<open>loop\<close>, and a buffer of the declared size.
\<close>

definition msg_ok :: "device \<Rightarrow> machine \<Rightarrow> bool" where
  "msg_ok d m \<longleftrightarrow>
     msg_header m = [0x00, MIDI_ID, VERSION] \<and> length (msg_buffer m) = sizeof_buffer d"

text \<open>The invariant of the receive loop while the bootloader runs.\<close>

definition parser_inv :: "device \<Rightarrow> machine \<Rightarrow> bool" where
  "parser_inv d m \<longleftrightarrow>
     msg_ok d m \<and>
     (\<not> jumped m \<longrightarrow>
       (state m = STATE_MATCHING_HEADER \<longrightarrow>
          bytes_read m < 3 \<and> payload_size m = 0 \<and> checksum m = 0) \<and>
       (state m = STATE_READING_BODY \<longrightarrow> payload_size m < sizeof_buffer d) \<and>
       (state m = STATE_EXPECTING_END \<longrightarrow> payload_size m = sizeof_buffer d))"

text \<open>
  The page sizes for which the natural-number arithmetic of the parser and of
  \<open>send_msg\<close> is the arithmetic of the source: \<open>1 + SPM_PAGESIZE\<close> fits the
  \<open>uint8_t\<close> parameter of \<open>send_msg\<close>, and \<open>sizeof(msg.buffer)\<close> fits the
  \<open>uint16_t\<close> counter \<open>payload_size\<close>.
\<close>

definition page_size_ok :: "device \<Rightarrow> bool" where
  "page_size_ok d \<longleftrightarrow> 0 < SPM_PAGESIZE d \<and> SPM_PAGESIZE d < 255"

text \<open>
  The device constants for which, in addition, the page arithmetic of the model is the
  arithmetic of the source: \<open>FLASHEND + 1\<close> fits the 16-bit \<open>int\<close> of the AVR, so
  that \<open>NUM_PAGES\<close> does not overflow, and then \<open>msg.page_no * SPM_PAGESIZE\<close>, computed
  in the same \<open>int\<close>, stays below \<open>2 ^ 15\<close> for every page number below
  \<open>NUM_PAGES\<close>. ATmega devices with 8 or 16 KiB of flash, such as ATmega8 and
  ATmega16, satisfy it. A device with \<open>FLASHEND = 0x7FFF\<close> does not: there
  \<open>FLASHEND + 1\<close> overflows, and no theorem below states what its page check
  accepts.
\<close>

definition device_ok :: "device \<Rightarrow> bool" where
  "device_ok d \<longleftrightarrow> page_size_ok d \<and> FLASHEND d + 1 < 32768"

text \<open>An 8 KiB device with 64-byte pages, and an erased flash.\<close>

definition atmega8 :: device where
  "atmega8 = \<lparr>SPM_PAGESIZE = 64, FLASHEND = 0x1FFF\<rparr>"

definition blank_flash :: "nat \<Rightarrow> uint8_t" where
  "blank_flash = (\<lambda>a. 0xff)"

text \<open>
  Follows the words of the specification, for comparison with \<open>NUM_PAGES\<close>: a page
  number is valid only if \<open>page_number * page_size\<close> lies within the flash range
  reserved for the resident application, which ends where the bootloader's own
  resident region starts (\<open>boot_start\<close>).
\<close>

definition app_page_valid :: "device \<Rightarrow> nat \<Rightarrow> nat \<Rightarrow> bool" where
  "app_page_valid d boot_start page_number \<longleftrightarrow> page_number * SPM_PAGESIZE d < boot_start"

text \<open>
  On the 8 KiB device the boot section, at its largest setting of 1024 words, starts at
  byte address \<open>0x1800\<close>. Whatever the setting, the last page of the flash belongs
  to it.
\<close>

definition atmega8_boot_start :: nat where
  "atmega8_boot_start = 0x1800"

text \<open>
  The machine as \<open>process_msg\<close> finds it when the bytes \<open>bs\<close> (command, parameters,
  checksum byte) have been decoded into the zero-initialised buffer and the two bytes
  for command and checksum have been taken off \<open>payload_size\<close>.
\<close>

definition decoded_request :: "device \<Rightarrow> (nat \<Rightarrow> uint8_t) \<Rightarrow> uint8_t list \<Rightarrow> machine" where
  "decoded_request d fl bs =
     (loop_init d fl 0 0)\<lparr>state := STATE_READING_BODY,
        msg_buffer := bs @ replicate (sizeof_buffer d - length bs) 0,
        payload_size := length bs - 2\<rparr>"

text \<open>
  The invariant of the receive loop extended by the running checksum: once the header
  has matched, \<open>checksum\<close> is the XOR of the bytes decoded so far.
\<close>

definition frame_inv :: "device \<Rightarrow> machine \<Rightarrow> bool" where
  "frame_inv d m \<longleftrightarrow>
     parser_inv d m \<and>
     (\<not> jumped m \<longrightarrow> state m = STATE_READING_BODY \<or> state m = STATE_EXPECTING_END \<longrightarrow>
        checksum m = xor_bytes (take (payload_size m) (msg_buffer m)))"

text \<open>
  The reply of the dispatcher as the table of commands gives it, as a function of the
  command byte, the page-number byte, the payload size and the flash. Lemma
  \<open>uart_out_process_msg\<close> below shows that \<open>process_msg\<close> transmits exactly this.
\<close>

definition reply_bytes ::
  "device \<Rightarrow> uint8_t \<Rightarrow> uint8_t \<Rightarrow> nat \<Rightarrow> (nat \<Rightarrow> uint8_t) \<Rightarrow> uint8_t list" where
  "reply_bytes d command page_no psize fl =
     (let page = unat page_no * SPM_PAGESIZE d;
          data = map fl [page..<page + SPM_PAGESIZE d];
          in_range = unat page_no < NUM_PAGES d
      in if command = COMMAND_PING \<or> command = COMMAND_QUIT then
           (if psize = 0 then wire_frame [REPLY_SUCCESS]
            else wire_frame [REPLY_ERROR, ERROR_INVALID_PAYLOAD_SIZE])
         else if command = COMMAND_WRITE then
           (if psize \<noteq> SPM_PAGESIZE d + 1 then wire_frame [REPLY_ERROR, ERROR_INVALID_PAYLOAD_SIZE]
            else if \<not> in_range then wire_frame [REPLY_ERROR, ERROR_INVALID_PAGE_NUMBER]
            else wire_frame [REPLY_SUCCESS])
         else if command = COMMAND_VERIFY \<or> command = COMMAND_READ then
           (if psize \<noteq> 1 then wire_frame [REPLY_ERROR, ERROR_INVALID_PAYLOAD_SIZE]
            else if \<not> in_range then wire_frame [REPLY_ERROR, ERROR_INVALID_PAGE_NUMBER]
            else if command = COMMAND_VERIFY then wire_frame [REPLY_VERIFY, xor_bytes data]
            else wire_frame (REPLY_READ # data))
         else wire_frame [REPLY_ERROR, ERROR_UNKNOWN_COMMAND])"

section \<open>Properties\<close>

subsection \<open>Auxiliary facts\<close>

lemmas code_defs =
  COMMAND_PING_def COMMAND_WRITE_def COMMAND_READ_def COMMAND_VERIFY_def COMMAND_QUIT_def
  REPLY_SUCCESS_def REPLY_ERROR_def REPLY_READ_def REPLY_VERIFY_def
  ERROR_NONE_def ERROR_HEADER_MISMATCH_def ERROR_INVALID_FORMAT_def
  ERROR_INCOMPLETE_MESSAGE_def ERROR_INVALID_NIBBLE_def ERROR_INVALID_CHECKSUM_def
  ERROR_UNKNOWN_COMMAND_def ERROR_INVALID_PAYLOAD_SIZE_def ERROR_INVALID_PAGE_NUMBER_def
  MIDI_ID_def VERSION_def

lemma foldl_xor: "foldl (XOR) (c::uint8_t) bs = c XOR foldl (XOR) 0 bs"
proof (induction bs arbitrary: c)
  case Nil show ?case by simp
next
  case (Cons b bs)
  have "foldl (XOR) (c XOR b) bs = (c XOR b) XOR foldl (XOR) 0 bs" by (rule Cons.IH)
  moreover have "foldl (XOR) (0 XOR b) bs = (0 XOR b) XOR foldl (XOR) 0 bs" by (rule Cons.IH)
  ultimately show ?case by (simp add: xor.assoc)
qed

lemma send_bytes_eq:
  "send_bytes bs cs m = (cs XOR xor_bytes bs, m\<lparr>uart_out := uart_out m @ encode_bytes bs\<rparr>)"
proof (induction bs arbitrary: cs m)
  case Nil show ?case by (simp add: xor_bytes_def encode_bytes_def)
next
  case (Cons b bs)
  show ?case
    using foldl_xor[of b bs]
    by (simp add: Cons.IH uart_putc_def xor_bytes_def encode_bytes_def xor.assoc)
qed

lemma send_msg_eq:
  "send_msg n m = m\<lparr>uart_out := uart_out m @ [0xf0] @ take 3 (msg_header m) @
      encode_bytes (take ((1 + n mod 256) mod 256) (msg_buffer m)) @
      encode_bytes [xor_bytes (take ((1 + n mod 256) mod 256) (msg_buffer m))] @ [0xf7]\<rparr>"
proof -
  have f: "\<And>hs m. fold uart_putc hs m = m\<lparr>uart_out := uart_out m @ hs\<rparr>"
    subgoal for hs m by (induction hs arbitrary: m) (simp_all add: uart_putc_def)
    done
  show ?thesis
    by (simp add: send_msg_def Let_def f send_bytes_eq uart_putc_def encode_bytes_def)
qed

lemma reply_error_eq:
  assumes "2 \<le> length (msg_buffer m)"
  shows "reply_error e m = m\<lparr>msg_buffer := (msg_buffer m)[0 := REPLY_ERROR, 1 := e],
     uart_out := uart_out m @ [0xf0] @ take 3 (msg_header m) @
       [0x02, 0x01, drop_bit 4 e, e AND 0x0f, drop_bit 4 (0x21 XOR e), (0x21 XOR e) AND 0x0f, 0xf7]\<rparr>"
proof -
  obtain a b r where buf: "msg_buffer m = a # b # r"
    using assms by (cases "msg_buffer m"; cases "tl (msg_buffer m)") auto
  show ?thesis
    by (simp add: reply_error_def send_msg_eq buf encode_bytes_def xor_bytes_def REPLY_ERROR_def)
qed

lemma send_msg_fields [simp]:
  "state (send_msg n m) = state m"
  "msg_header (send_msg n m) = msg_header m"
  "msg_buffer (send_msg n m) = msg_buffer m"
  "payload_size (send_msg n m) = payload_size m"
  "checksum (send_msg n m) = checksum m"
  "bytes_read (send_msg n m) = bytes_read m"
  "flash (send_msg n m) = flash m"
  "jumped (send_msg n m) = jumped m"
  by (simp_all add: send_msg_eq)

lemma reply_error_fields [simp]:
  "state (reply_error e m) = state m"
  "msg_header (reply_error e m) = msg_header m"
  "length (msg_buffer (reply_error e m)) = length (msg_buffer m)"
  "payload_size (reply_error e m) = payload_size m"
  "checksum (reply_error e m) = checksum m"
  "bytes_read (reply_error e m) = bytes_read m"
  "flash (reply_error e m) = flash m"
  "jumped (reply_error e m) = jumped m"
  by (simp_all add: reply_error_def)

lemma reply_success_fields [simp]:
  "state (reply_success m) = state m"
  "msg_header (reply_success m) = msg_header m"
  "length (msg_buffer (reply_success m)) = length (msg_buffer m)"
  "payload_size (reply_success m) = payload_size m"
  "checksum (reply_success m) = checksum m"
  "bytes_read (reply_success m) = bytes_read m"
  "flash (reply_success m) = flash m"
  "jumped (reply_success m) = jumped m"
  by (simp_all add: reply_success_def)

lemma reply_data_fields [simp]:
  "state (reply_data c n m) = state m"
  "msg_header (reply_data c n m) = msg_header m"
  "length (msg_buffer (reply_data c n m)) = length (msg_buffer m)"
  "payload_size (reply_data c n m) = payload_size m"
  "checksum (reply_data c n m) = checksum m"
  "bytes_read (reply_data c n m) = bytes_read m"
  "flash (reply_data c n m) = flash m"
  "jumped (reply_data c n m) = jumped m"
  by (simp_all add: reply_data_def)

lemma length_read_loop [simp]: "length (read_loop fl addr n i buf) = length buf"
  by (induction n arbitrary: addr i buf) simp_all

lemma command_fields [simp]:
  "state (command_write d m) = state m"
  "msg_header (command_write d m) = msg_header m"
  "msg_buffer (command_write d m) = msg_buffer m"
  "payload_size (command_write d m) = payload_size m"
  "checksum (command_write d m) = checksum m"
  "bytes_read (command_write d m) = bytes_read m"
  "jumped (command_write d m) = jumped m"
  "uart_out (command_write d m) = uart_out m"
  "state (command_read d m) = state m"
  "msg_header (command_read d m) = msg_header m"
  "length (msg_buffer (command_read d m)) = length (msg_buffer m)"
  "payload_size (command_read d m) = payload_size m"
  "checksum (command_read d m) = checksum m"
  "bytes_read (command_read d m) = bytes_read m"
  "flash (command_read d m) = flash m"
  "jumped (command_read d m) = jumped m"
  "uart_out (command_read d m) = uart_out m"
  "state (command_verify d m) = state m"
  "msg_header (command_verify d m) = msg_header m"
  "length (msg_buffer (command_verify d m)) = length (msg_buffer m)"
  "payload_size (command_verify d m) = payload_size m"
  "checksum (command_verify d m) = checksum m"
  "bytes_read (command_verify d m) = bytes_read m"
  "flash (command_verify d m) = flash m"
  "jumped (command_verify d m) = jumped m"
  "uart_out (command_verify d m) = uart_out m"
  by (simp_all add: command_write_def command_read_def command_verify_def Let_def)

lemma process_msg_fields [simp]:
  "state (process_msg d m) = state m"
  "msg_header (process_msg d m) = msg_header m"
  "length (msg_buffer (process_msg d m)) = length (msg_buffer m)"
  "payload_size (process_msg d m) = payload_size m"
  "checksum (process_msg d m) = checksum m"
  "bytes_read (process_msg d m) = bytes_read m"
  by (simp_all add: process_msg_def Let_def program_main_def)

lemma msg_ok_init: "msg_ok d (loop_init d fl cs0 br0)"
  by (simp add: msg_ok_def loop_init_def)

lemma parser_inv_init: "parser_inv d (loop_init d fl cs0 br0)"
  by (simp add: parser_inv_def msg_ok_def loop_init_def)

lemma end_frame_fields [simp]:
  "msg_header (end_frame m) = msg_header m"
  "msg_buffer (end_frame m) = msg_buffer m"
  "payload_size (end_frame m) = payload_size m"
  "checksum (end_frame m) = checksum m"
  "bytes_read (end_frame m) = bytes_read m"
  "flash (end_frame m) = flash m"
  "uart_out (end_frame m) = uart_out m"
  "jumped (end_frame m) = jumped m"
  by (simp_all add: end_frame_def)

lemma loop_step_inv:
  assumes "parser_inv d m" and "\<not> jumped m"
  shows "\<exists>m'. loop_step d m byte = Some m' \<and> parser_inv d m'"
proof (cases "state m")
  case STATE_IDLE
  with assms show ?thesis
    by (auto simp: loop_step_def parser_inv_def msg_ok_def Let_def end_frame_def)
next
  case STATE_MATCHING_HEADER
  with assms show ?thesis
    by (auto simp: loop_step_def parser_inv_def msg_ok_def Let_def end_frame_def sizeof_buffer_def)
next
  case STATE_READING_BODY
  with assms show ?thesis
    by (auto simp: loop_step_def parser_inv_def msg_ok_def Let_def end_frame_def)
next
  case STATE_EXPECTING_END
  with assms show ?thesis
    by (auto simp: loop_step_def parser_inv_def msg_ok_def Let_def end_frame_def)
qed

lemma loop_run_inv:
  "parser_inv d m \<Longrightarrow> \<exists>m'. loop_run d m bytes = Some m' \<and> parser_inv d m'"
proof (induction bytes arbitrary: m)
  case Nil
  then show ?case by simp
next
  case (Cons byte bytes)
  show ?case
  proof (cases "jumped m")
    case True
    with Cons.prems show ?thesis by simp
  next
    case False
    obtain m1 where s: "loop_step d m byte = Some m1" and i: "parser_inv d m1"
      using loop_step_inv[OF Cons.prems False] by blast
    with False Cons.IH[OF i] show ?thesis by simp
  qed
qed

lemma msg_okD:
  assumes "msg_ok d m"
  shows "msg_header m = [0x00, 0x70, 0x01]" and "2 \<le> length (msg_buffer m)"
    and "length (msg_buffer m) = sizeof_buffer d"
  using assms by (simp_all add: msg_ok_def sizeof_buffer_def MIDI_ID_def VERSION_def)

lemma expecting_end_step:
  assumes "msg_ok d m" and "state m = STATE_EXPECTING_END" and "byte < 0x80"
  shows "loop_step d m byte =
     Some (m\<lparr>state := STATE_IDLE,
             msg_buffer := (msg_buffer m)[0 := REPLY_ERROR, 1 := ERROR_INVALID_PAYLOAD_SIZE],
             uart_out := uart_out m @
               [0xf0, 0x00, 0x70, 0x01, 0x02, 0x01, 0x00, 0x07, 0x02, 0x06, 0xf7]\<rparr>)"
  using assms(2,3) msg_okD(1)[OF assms(1)]
  by (simp add: loop_step_def reply_error_eq [OF msg_okD(2)[OF assms(1)]]
      ERROR_INVALID_PAYLOAD_SIZE_def)

lemma hi_nibble_le: "drop_bit 4 (b :: uint8_t) \<le> 0xf"
proof -
  have "unat (drop_bit 4 b) = drop_bit 4 (unat b)" by (rule unat_drop_bit_eq)
  also have "\<dots> = unat b div 2 ^ 4" by (rule drop_bit_eq_div)
  finally have "unat (drop_bit 4 b) = unat b div 16" by simp
  moreover have "unat b < 256" using unsigned_less [of b, where 'a = nat] by simp
  ultimately have "unat (drop_bit 4 b) \<le> 15" by simp
  then show ?thesis by (simp add: word_le_nat_alt)
qed

lemma lo_nibble_le: "(b :: uint8_t) AND 0xf \<le> 0xf"
  by (rule word_and_le1)

lemma nibbles_join: "push_bit 4 (drop_bit 4 b) + (b AND 0xf) = (b :: uint8_t)"
proof -
  have "(b AND 0xf) = take_bit 4 b" by (simp add: take_bit_eq_mask mask_eq_exp_minus_1)
  then show ?thesis by (simp add: bits_ident)
qed

lemma nibble_is_data: "(n :: uint8_t) \<le> 0xf \<Longrightarrow> n < 0x80 \<and> \<not> 0xf < n"
  by (simp add: word_le_nat_alt word_less_nat_alt)

lemma body_pair:
  assumes "page_size_ok d" and "msg_ok d m" and "state m = STATE_READING_BODY"
    and "\<not> jumped m" and "even (bytes_read m)" and "payload_size m < sizeof_buffer d"
    and "hi \<le> 0xf" and "lo \<le> 0xf"
  shows "loop_run d m (hi # lo # rest) =
     loop_run d
       (m\<lparr>bytes_read := (bytes_read m + 2) mod 65536,
          msg_buffer := (msg_buffer m)[payload_size m := push_bit 4 hi + lo],
          checksum := checksum m XOR (push_bit 4 hi + lo),
          payload_size := payload_size m + 1,
          state := (if payload_size m + 1 = sizeof_buffer d then STATE_EXPECTING_END
                    else STATE_READING_BODY)\<rparr>) rest"
proof -
  have len: "length (msg_buffer m) = sizeof_buffer d" using assms(2) by (simp add: msg_ok_def)
  have small: "sizeof_buffer d < 65536"
    using assms(1) by (simp add: device_ok_def page_size_ok_def sizeof_buffer_def)
  have ps: "payload_size m < 65535" using assms(6) small by simp
  have hi: "hi < 0x80" "\<not> 0xf < hi" using nibble_is_data [OF assms(7)] by simp_all
  have lo: "lo < 0x80" "\<not> 0xf < lo" using nibble_is_data [OF assms(8)] by simp_all
  have "((bytes_read m + 1) mod 65536) mod 2 = (bytes_read m + 1) mod 2"
    by (rule mod_mod_cancel) simp
  then have par: "bytes_read m mod 2 \<noteq> 1" "((bytes_read m + 1) mod 65536) mod 2 = 1"
    using assms(5) by (simp_all add: mod2_eq_if)
  have "((bytes_read m + 1) mod 65536 + 1) mod 65536 = (bytes_read m + 1 + 1) mod 65536"
    by (rule mod_add_left_eq)
  then have br: "Suc ((bytes_read m + 1) mod 65536) mod 65536 = (bytes_read m + 2) mod 65536"
    by simp
  let ?m1 = "m\<lparr>bytes_read := (bytes_read m + 1) mod 65536,
                 msg_buffer := (msg_buffer m)[payload_size m := push_bit 4 hi]\<rparr>"
  have s1: "loop_step d m hi = Some ?m1"
    using assms(3,6) hi par(1) by (simp add: loop_step_def Let_def)
  have s2: "loop_step d ?m1 lo =
     Some (m\<lparr>bytes_read := (bytes_read m + 2) mod 65536,
          msg_buffer := (msg_buffer m)[payload_size m := push_bit 4 hi + lo],
          checksum := checksum m XOR (push_bit 4 hi + lo),
          payload_size := payload_size m + 1,
          state := (if payload_size m + 1 = sizeof_buffer d then STATE_EXPECTING_END
                    else STATE_READING_BODY)\<rparr>)"
    using assms(3,6) lo par(2) br ps len
    by (simp add: loop_step_def Let_def)
  show ?thesis using assms(4) s1 s2 by simp
qed

lemma xor_bytes_Cons: "xor_bytes (b # bs) = b XOR xor_bytes bs"
  using foldl_xor [of b bs] by (simp add: xor_bytes_def)

lemma encode_bytes_Cons: "encode_bytes (b # bs) = drop_bit 4 b # (b AND 0xf) # encode_bytes bs"
  by (simp add: encode_bytes_def)

lemma decode_encode: "decode_nibbles (encode_bytes bs) = bs"
  by (induction bs) (simp_all add: encode_bytes_Cons nibbles_join, simp add: encode_bytes_def)

lemma encode_bytes_nibbles: "n \<in> set (encode_bytes bs) \<Longrightarrow> n \<le> 0xf"
  by (induction bs) (auto simp: encode_bytes_Cons hi_nibble_le lo_nibble_le, simp add: encode_bytes_def)

lemma length_encode_bytes: "length (encode_bytes bs) = 2 * length bs"
  by (induction bs) (simp_all add: encode_bytes_Cons, simp add: encode_bytes_def)

lemma length_decode_nibbles: "length (decode_nibbles ns) = length ns div 2"
  by (induction ns rule: decode_nibbles.induct) simp_all

lemma reading_body_decodes:
  assumes "page_size_ok d" and "msg_ok d m" and "state m = STATE_READING_BODY"
    and "\<not> jumped m" and "even (bytes_read m)"
    and "\<forall>n \<in> set ns. n \<le> 0xf" and "even (length ns)"
    and "payload_size m + length ns div 2 \<le> sizeof_buffer d"
    and "payload_size m < sizeof_buffer d"
  shows "\<exists>m'. loop_run d m ns = Some m' \<and>
     msg_buffer m' =
       take (payload_size m) (msg_buffer m) @ decode_nibbles ns @
       drop (payload_size m + length ns div 2) (msg_buffer m) \<and>
     payload_size m' = payload_size m + length ns div 2 \<and>
     checksum m' = checksum m XOR xor_bytes (decode_nibbles ns) \<and>
     state m' = (if payload_size m + length ns div 2 = sizeof_buffer d
                 then STATE_EXPECTING_END else STATE_READING_BODY) \<and>
     even (bytes_read m') \<and> msg_header m' = msg_header m \<and>
     uart_out m' = uart_out m \<and> flash m' = flash m \<and> \<not> jumped m'"
  using assms(2-)
proof (induction ns arbitrary: m rule: decode_nibbles.induct)
  case (1 hi lo ns)
  let ?b = "push_bit 4 hi + lo"
  let ?m1 = "m\<lparr>bytes_read := (bytes_read m + 2) mod 65536,
          msg_buffer := (msg_buffer m)[payload_size m := ?b],
          checksum := checksum m XOR ?b,
          payload_size := payload_size m + 1,
          state := (if payload_size m + 1 = sizeof_buffer d then STATE_EXPECTING_END
                    else STATE_READING_BODY)\<rparr>"
  have len: "length (msg_buffer m) = sizeof_buffer d"
    using "1.prems"(1) by (simp add: msg_ok_def)
  have nib: "hi \<le> 0xf" "lo \<le> 0xf" "\<forall>n \<in> set ns. n \<le> 0xf" "even (length ns)"
    using "1.prems"(5,6) by simp_all
  have run: "loop_run d m (hi # lo # ns) = loop_run d ?m1 ns"
    using body_pair [OF assms(1) "1.prems"(1,2,3,4,8) nib(1,2)] .
  have ev: "even ((bytes_read m + 2) mod 65536)"
    using "1.prems"(4) by (simp add: dvd_mod_iff)
  have buf1: "take (Suc (payload_size m)) ((msg_buffer m)[payload_size m := ?b]) =
      take (payload_size m) (msg_buffer m) @ [?b]"
    using "1.prems"(8) len by (simp add: take_Suc_conv_app_nth)
  have bound: "Suc (payload_size m) + length ns div 2 \<le> sizeof_buffer d"
    using "1.prems"(7) by simp
  show ?case
  proof (cases "payload_size m + 1 = sizeof_buffer d")
    case True
    then have "length ns div 2 \<le> 0" using bound by simp
    then have "length ns \<le> 0" using nib(4) by (auto elim!: evenE simp del: length_0_conv)
    then have "ns = []" by simp
    with True run ev "1.prems" len show ?thesis
      by (simp add: xor_bytes_Cons upd_conv_take_nth_drop xor_bytes_def)
  next
    case False
    then have lt: "payload_size ?m1 < sizeof_buffer d" using "1.prems"(8) by simp
    have ok1: "msg_ok d ?m1" using "1.prems"(1) by (simp add: msg_ok_def)
    obtain m' where r: "loop_run d ?m1 ns = Some m'"
      and b: "msg_buffer m' = take (payload_size ?m1) (msg_buffer ?m1) @ decode_nibbles ns @
                drop (payload_size ?m1 + length ns div 2) (msg_buffer ?m1)"
      and rest: "payload_size m' = payload_size ?m1 + length ns div 2"
        "checksum m' = checksum ?m1 XOR xor_bytes (decode_nibbles ns)"
        "state m' = (if payload_size ?m1 + length ns div 2 = sizeof_buffer d
                     then STATE_EXPECTING_END else STATE_READING_BODY)"
        "even (bytes_read m')" "msg_header m' = msg_header ?m1"
        "uart_out m' = uart_out ?m1" "flash m' = flash ?m1" "\<not> jumped m'"
      using "1.IH" [OF ok1 _ _ _ nib(3,4) _ lt] False ev "1.prems"(3) bound by auto
    have "msg_buffer m' = take (payload_size m) (msg_buffer m) @ decode_nibbles (hi # lo # ns) @
                drop (payload_size m + length (hi # lo # ns) div 2) (msg_buffer m)"
      using b buf1 by simp
    with r rest run show ?thesis
      by (simp add: xor_bytes_Cons xor.assoc)
  qed
next
  case "2_1"
  then show ?case by (simp add: xor_bytes_def)
next
  case "2_2"
  then show ?case by simp
qed

lemma header_run:
  assumes "msg_ok d m" and "\<not> jumped m" and "state m = STATE_IDLE"
  shows "loop_run d m (0xf0 # 0x00 # 0x70 # 0x01 # rest) =
     loop_run d (m\<lparr>state := STATE_READING_BODY, checksum := 0, bytes_read := 0,
                   payload_size := 0\<rparr>) rest"
proof -
  have eq: "m\<lparr>checksum := 0, payload_size := 0, state := STATE_READING_BODY, bytes_read := 0\<rparr>
      = m\<lparr>state := STATE_READING_BODY, checksum := 0, bytes_read := 0, payload_size := 0\<rparr>"
    by (cases m) simp
  show ?thesis
    using assms(2,3) msg_okD(1) [OF assms(1)]
    by (simp add: loop_step_def Let_def eq)
qed

lemma reading_body_encoded:
  assumes "page_size_ok d" and "msg_ok d m" and "state m = STATE_READING_BODY"
    and "\<not> jumped m" and "even (bytes_read m)"
    and "payload_size m + length bs \<le> sizeof_buffer d"
    and "payload_size m < sizeof_buffer d"
  shows "\<exists>m'. loop_run d m (encode_bytes bs) = Some m' \<and>
     msg_buffer m' =
       take (payload_size m) (msg_buffer m) @ bs @
       drop (payload_size m + length bs) (msg_buffer m) \<and>
     payload_size m' = payload_size m + length bs \<and>
     checksum m' = checksum m XOR xor_bytes bs \<and>
     state m' = (if payload_size m + length bs = sizeof_buffer d then STATE_EXPECTING_END
                 else STATE_READING_BODY) \<and>
     even (bytes_read m') \<and> msg_header m' = msg_header m \<and>
     uart_out m' = uart_out m \<and> flash m' = flash m \<and> \<not> jumped m'"
proof -
  have n: "\<forall>n \<in> set (encode_bytes bs). n \<le> 0xf"
    using encode_bytes_nibbles by blast
  have e: "even (length (encode_bytes bs))" by (simp add: length_encode_bytes)
  have l: "payload_size m + length (encode_bytes bs) div 2 \<le> sizeof_buffer d"
    using assms(6) by (simp add: length_encode_bytes)
  show ?thesis
    using reading_body_decodes [OF assms(1-5) n e l assms(7)]
    by (simp add: decode_encode length_encode_bytes)
qed

lemma fill_word:
  fixes b0 b1 :: uint8_t
  defines "w \<equiv> (ucast b0 :: uint16_t) + push_bit 8 (ucast b1)"
  shows "ucast w = b0" and "ucast (drop_bit 8 w) = b1"
proof -
  have w: "w = (ucast b0 :: uint16_t) OR push_bit 8 (ucast b1)"
    unfolding w_def
    by (rule disjunctive_add_eq_or) (simp add: bit_eq_iff bit_simps, auto dest: bit_imp_le_length)
  show "ucast w = b0"
    unfolding w by (rule bit_word_eqI) (auto simp: bit_simps dest: bit_imp_le_length)
  show "ucast (drop_bit 8 w) = b1"
    unfolding w by (rule bit_word_eqI) (auto simp: bit_simps dest: bit_imp_le_length)
qed

lemma fill_loop_result:
  "i < SPM_PAGESIZE d \<Longrightarrow>
   fill_loop d buf addr tmp i = (if addr \<le> i then buf ! (2 + i) else tmp i)"
proof (induction d buf addr tmp rule: fill_loop.induct)
  case (1 d buf addr tmp)
  show ?case
  proof (cases "addr < SPM_PAGESIZE d")
    case True
    let ?w = "(ucast (buf ! (2 + addr)) :: uint16_t) + push_bit 8 (ucast (buf ! (2 + addr + 1)))"
    have ih: "fill_loop d buf (addr + 2) (boot_page_fill addr ?w tmp) i =
        (if addr + 2 \<le> i then buf ! (2 + i) else boot_page_fill addr ?w tmp i)"
      using "1.IH" [OF True refl refl] "1.prems" by simp
    have unf: "fill_loop d buf addr tmp = fill_loop d buf (addr + 2) (boot_page_fill addr ?w tmp)"
      using True by (subst fill_loop.simps) (simp add: Let_def)
    have "i = addr \<or> i = addr + 1 \<or> addr + 2 \<le> i \<or> i < addr" by arith
    then show ?thesis
      unfolding unf ih
      by (auto simp: boot_page_fill_def fill_word)
  next
    case False
    then have "fill_loop d buf addr tmp = tmp" by (subst fill_loop.simps) simp
    with False "1.prems" show ?thesis by simp
  qed
qed

lemma command_write_flash:
  "flash (command_write d m) a =
     (if page_address d m \<le> a \<and> a < page_address d m + SPM_PAGESIZE d
      then msg_buffer m ! (2 + (a - page_address d m)) else flash m a)"
proof (cases "page_address d m \<le> a \<and> a < page_address d m + SPM_PAGESIZE d")
  case True
  then have "a - page_address d m < SPM_PAGESIZE d" by arith
  then have "fill_loop d (msg_buffer m) 0 (\<lambda>a. 0xff) (a - page_address d m) =
      msg_buffer m ! (2 + (a - page_address d m))"
    by (simp add: fill_loop_result)
  with True show ?thesis
    by (simp add: command_write_def Let_def boot_page_write_def)
next
  case False
  then show ?thesis
    by (auto simp: command_write_def Let_def boot_page_write_def boot_page_erase_def)
qed

lemma read_loop_result:
  "i + n \<le> length buf \<Longrightarrow>
   read_loop fl addr n i buf = take i buf @ map fl [addr..<addr + n] @ drop (i + n) buf"
proof (induction n arbitrary: addr i buf)
  case 0
  then show ?case by simp
next
  case (Suc n)
  have "read_loop fl addr (Suc n) i buf =
      read_loop fl (Suc addr) n (Suc i) (buf[i := fl addr])"
    by (simp add: pgm_read_byte_def)
  also have "\<dots> = take (Suc i) (buf[i := fl addr]) @ map fl [Suc addr..<Suc addr + n] @
      drop (Suc i + n) (buf[i := fl addr])"
    using Suc.prems by (intro Suc.IH) simp
  also have "take (Suc i) (buf[i := fl addr]) = take i buf @ [fl addr]"
    using Suc.prems by (simp add: take_Suc_conv_app_nth)
  also have "drop (Suc i + n) (buf[i := fl addr]) = drop (i + Suc n) buf" by simp
  finally show ?case by (simp add: upt_rec [of addr])
qed

lemma xor_bytes_snoc: "xor_bytes (bs @ [b]) = xor_bytes bs XOR b"
  by (simp add: xor_bytes_def)

lemma verify_loop_result:
  "verify_loop fl addr n cs = cs XOR xor_bytes (map fl [addr..<addr + n])"
proof (induction n arbitrary: addr cs)
  case 0
  then show ?case by (simp add: xor_bytes_def)
next
  case (Suc n)
  have "[addr..<addr + Suc n] = addr # [Suc addr..<Suc addr + n]" by (simp add: upt_rec)
  then show ?case
    by (simp add: Suc.IH pgm_read_byte_def xor_bytes_Cons xor.assoc)
qed

lemma wire_frame_eq:
  "msg_header m = [0x00, MIDI_ID, VERSION] \<Longrightarrow>
   send_msg n m = m\<lparr>uart_out := uart_out m @
      wire_frame (take ((1 + n mod 256) mod 256) (msg_buffer m))\<rparr>"
  by (simp add: send_msg_eq wire_frame_def)

lemma reply_error_wire:
  assumes "msg_ok d m"
  shows "reply_error e m = m\<lparr>msg_buffer := (msg_buffer m)[0 := REPLY_ERROR, 1 := e],
     uart_out := uart_out m @
       [0xf0, 0x00, 0x70, 0x01, 0x02, 0x01, drop_bit 4 e, e AND 0x0f,
        drop_bit 4 (0x21 XOR e), (0x21 XOR e) AND 0x0f, 0xf7]\<rparr>"
  using reply_error_eq [OF msg_okD(2) [OF assms]] msg_okD(1) [OF assms] by simp

lemma reply_success_wire:
  assumes "msg_ok d m"
  shows "reply_success m = m\<lparr>msg_buffer := (msg_buffer m)[0 := REPLY_SUCCESS],
     uart_out := uart_out m @ [0xf0, 0x00, 0x70, 0x01, 0x02, 0x00, 0x02, 0x00, 0xf7]\<rparr>"
proof -
  obtain a r where buf: "msg_buffer m = a # r"
    using msg_okD(2) [OF assms] by (cases "msg_buffer m") auto
  show ?thesis
    using msg_okD(1) [OF assms]
    by (simp add: reply_success_def send_msg_eq buf encode_bytes_def xor_bytes_def
        REPLY_SUCCESS_def)
qed

lemma msg_ok_command_write: "msg_ok d (command_write d m) = msg_ok d m"
  by (simp add: msg_ok_def)

lemma wire_frame_Cons:
  "wire_frame (b # bs) =
     [0xf0, 0x00, 0x70, 0x01, drop_bit 4 b, b AND 0x0f] @ encode_bytes bs @
     encode_bytes [xor_bytes (b # bs)] @ [0xf7]"
  by (simp add: wire_frame_def encode_bytes_Cons code_defs)

lemma reply_data_wire:
  assumes "msg_ok d m" and "n < 255"
  shows "reply_data c n m =
     m\<lparr>msg_buffer := (msg_buffer m)[0 := c],
       uart_out := uart_out m @ wire_frame (c # take n (tl (msg_buffer m)))\<rparr>"
proof -
  obtain a r where buf: "msg_buffer m = a # r"
    using msg_okD(2) [OF assms(1)] by (cases "msg_buffer m") auto
  have h: "msg_header (m\<lparr>msg_buffer := (msg_buffer m)[0 := c]\<rparr>) = [0x00, MIDI_ID, VERSION]"
    using assms(1) by (simp add: msg_ok_def)
  have n: "(1 + n mod 256) mod 256 = Suc n" using assms(2) by simp
  show ?thesis
    unfolding reply_data_def wire_frame_eq [OF h] n
    by (simp add: buf)
qed

lemma page_in_flash:
  assumes "0 < SPM_PAGESIZE d"
  shows "pn < NUM_PAGES d \<longleftrightarrow> pn * SPM_PAGESIZE d + SPM_PAGESIZE d \<le> FLASHEND d + 1"
proof -
  have "pn < (FLASHEND d + 1) div SPM_PAGESIZE d \<longleftrightarrow> Suc pn \<le> (FLASHEND d + 1) div SPM_PAGESIZE d"
    by arith
  also have "\<dots> \<longleftrightarrow> Suc pn * SPM_PAGESIZE d \<le> FLASHEND d + 1"
    using assms by (simp add: less_eq_div_iff_mult_less_eq)
  finally show ?thesis by (simp add: NUM_PAGES_def add.commute)
qed

lemma page_data_read:
  assumes "length (msg_buffer m) = sizeof_buffer d"
    and "\<forall>a. page \<le> a \<and> a < page + SPM_PAGESIZE d \<longrightarrow> fl a = msg_buffer m ! (2 + (a - page))"
  shows "map fl [page..<page + SPM_PAGESIZE d] = take (SPM_PAGESIZE d) (drop 2 (msg_buffer m))"
proof (rule nth_equalityI)
  show "length (map fl [page..<page + SPM_PAGESIZE d]) =
      length (take (SPM_PAGESIZE d) (drop 2 (msg_buffer m)))"
    using assms(1) by (simp add: sizeof_buffer_def)
next
  fix i
  assume "i < length (map fl [page..<page + SPM_PAGESIZE d])"
  then have i: "i < SPM_PAGESIZE d" by simp
  then have "map fl [page..<page + SPM_PAGESIZE d] ! i = fl (page + i)" by simp
  also have "\<dots> = msg_buffer m ! (2 + i)" using assms(2) i by simp
  also have "\<dots> = take (SPM_PAGESIZE d) (drop 2 (msg_buffer m)) ! i"
    using i assms(1) by (simp add: sizeof_buffer_def)
  finally show "map fl [page..<page + SPM_PAGESIZE d] ! i =
      take (SPM_PAGESIZE d) (drop 2 (msg_buffer m)) ! i" .
qed

lemma atmega8_facts:
  "device_ok atmega8" "sizeof_buffer atmega8 = 67" "SPM_PAGESIZE atmega8 = 64"
  "NUM_PAGES atmega8 = 128" "page_size_ok atmega8"
  by (simp_all add: device_ok_def page_size_ok_def atmega8_def sizeof_buffer_def NUM_PAGES_def)

lemma decoded_request_fields:
  "msg_buffer (decoded_request d fl bs) = bs @ replicate (sizeof_buffer d - length bs) 0"
  "payload_size (decoded_request d fl bs) = length bs - 2"
  "uart_out (decoded_request d fl bs) = []"
  "flash (decoded_request d fl bs) = fl"
  "msg_header (decoded_request d fl bs) = [0x00, MIDI_ID, VERSION]"
  by (simp_all add: decoded_request_def loop_init_def)

lemma msg_ok_decoded_request:
  "length bs \<le> sizeof_buffer d \<Longrightarrow> msg_ok d (decoded_request d fl bs)"
  by (simp add: msg_ok_def decoded_request_fields)

lemma xor_bytes_replicate: "xor_bytes (replicate n b) = (if even n then 0 else b)"
  by (induction n) (simp_all add: xor_bytes_Cons, simp add: xor_bytes_def)

lemma frame_inv_init: "frame_inv d (loop_init d fl cs0 br0)"
  by (simp add: frame_inv_def parser_inv_init) (simp add: loop_init_def)

lemma loop_step_frame_inv:
  assumes "page_size_ok d" and "frame_inv d m" and "\<not> jumped m"
  shows "\<exists>m'. loop_step d m byte = Some m' \<and> frame_inv d m'"
proof -
  have pi: "parser_inv d m" using assms(2) by (simp add: frame_inv_def)
  obtain m' where s: "loop_step d m byte = Some m'" and pi': "parser_inv d m'"
    using loop_step_inv [OF pi assms(3)] by blast
  have small: "sizeof_buffer d < 65536"
    using assms(1) by (simp add: device_ok_def page_size_ok_def sizeof_buffer_def)
  have len: "length (msg_buffer m) = sizeof_buffer d"
    using pi by (simp add: parser_inv_def msg_ok_def)
  have cs: "\<not> jumped m' \<longrightarrow> state m' = STATE_READING_BODY \<or> state m' = STATE_EXPECTING_END \<longrightarrow>
        checksum m' = xor_bytes (take (payload_size m') (msg_buffer m'))"
  proof (cases "state m")
    case STATE_IDLE
    with s show ?thesis
      by (auto simp: loop_step_def Let_def end_frame_def split: if_splits)
  next
    case STATE_MATCHING_HEADER
    with s pi assms(3) show ?thesis
      by (auto simp: loop_step_def Let_def end_frame_def parser_inv_def xor_bytes_def
          split: if_splits)
  next
    case STATE_READING_BODY
    then have ps: "payload_size m < sizeof_buffer d"
      and c: "checksum m = xor_bytes (take (payload_size m) (msg_buffer m))"
      using pi assms(2,3) by (simp_all add: parser_inv_def frame_inv_def)
    have ps1: "Suc (payload_size m) mod 65536 = Suc (payload_size m)"
      using ps small by simp
    have tk: "\<And>b. take (Suc (payload_size m)) ((msg_buffer m)[payload_size m := b]) =
        take (payload_size m) (msg_buffer m) @ [b]"
      using ps len by (simp add: take_Suc_conv_app_nth)
    have tk2: "\<And>b. Suc (payload_size m) = sizeof_buffer d \<Longrightarrow>
        take (sizeof_buffer d) ((msg_buffer m)[payload_size m := b]) =
        take (payload_size m) (msg_buffer m) @ [b]"
      subgoal for b using tk [of b] by simp
      done
    from s STATE_READING_BODY ps c show ?thesis
      by (auto simp: loop_step_def Let_def end_frame_def ps1 tk tk2 xor_bytes_snoc
          split: if_splits)
  next
    case STATE_EXPECTING_END
    with s assms(2,3) show ?thesis
      by (auto simp: loop_step_def Let_def end_frame_def frame_inv_def split: if_splits)
  qed
  show ?thesis using s pi' cs by (simp add: frame_inv_def)
qed

lemma loop_run_frame_inv:
  "page_size_ok d \<Longrightarrow> frame_inv d m \<Longrightarrow> loop_run d m bytes = Some m' \<Longrightarrow> frame_inv d m'"
proof (induction bytes arbitrary: m)
  case Nil
  then show ?case by simp
next
  case (Cons byte bytes)
  show ?case
  proof (cases "jumped m")
    case True
    with Cons.prems show ?thesis by simp
  next
    case False
    obtain m1 where s: "loop_step d m byte = Some m1" and i: "frame_inv d m1"
      using loop_step_frame_inv [OF Cons.prems(1,2) False] by blast
    with False Cons.prems(3) have "loop_run d m1 bytes = Some m'" by simp
    then show ?thesis by (rule Cons.IH [OF Cons.prems(1) i])
  qed
qed

lemma jumped_process_msg:
  "jumped (process_msg d m) \<longleftrightarrow>
     jumped m \<or> (msg_buffer m ! 0 = COMMAND_QUIT \<and> payload_size m = 0)"
  by (simp add: process_msg_def Let_def program_main_def code_defs)

lemma state_not_idle_cases:
  "s \<noteq> STATE_IDLE \<Longrightarrow> (state_value s < 2) = (s = STATE_MATCHING_HEADER)"
  by (cases s) simp_all

lemmas eval_defs = loop_step_def loop_init_def atmega8_def sizeof_buffer_def end_frame_def
  Let_def code_defs

lemma frame_body_run:
  assumes "page_size_ok d" and "length bs \<le> sizeof_buffer d"
  shows "\<exists>m. loop_run d (loop_init d fl cs0 br0) (0xf0 # 0x00 # 0x70 # 0x01 # encode_bytes bs)
           = Some m \<and>
     msg_buffer m = bs @ replicate (sizeof_buffer d - length bs) 0 \<and>
     payload_size m = length bs \<and> checksum m = xor_bytes bs \<and>
     state m = (if length bs = sizeof_buffer d then STATE_EXPECTING_END
                else STATE_READING_BODY) \<and>
     even (bytes_read m) \<and> uart_out m = [] \<and> flash m = fl \<and> \<not> jumped m \<and> msg_ok d m"
proof -
  let ?i = "loop_init d fl cs0 br0"
  let ?m1 = "?i\<lparr>state := STATE_READING_BODY, checksum := 0, bytes_read := 0, payload_size := 0\<rparr>"
  have oki: "msg_ok d ?i" by (rule msg_ok_init)
  have ok1: "msg_ok d ?m1" by (simp add: msg_ok_def loop_init_def)
  have hdr: "loop_run d ?i (0xf0 # 0x00 # 0x70 # 0x01 # encode_bytes bs) =
      loop_run d ?m1 (encode_bytes bs)"
    by (rule header_run [OF oki]) (simp_all add: loop_init_def)
  have pre: "state ?m1 = STATE_READING_BODY" "\<not> jumped ?m1" "even (bytes_read ?m1)"
    "payload_size ?m1 + length bs \<le> sizeof_buffer d" "payload_size ?m1 < sizeof_buffer d"
    using assms(2) by (simp_all add: loop_init_def sizeof_buffer_def)
  show ?thesis
    using reading_body_encoded [OF assms(1) ok1 pre] hdr assms(2)
    by (auto simp: loop_init_def msg_ok_def)
qed

lemma reply_error_frame:
  assumes "msg_ok d m"
  shows "uart_out (reply_error e m) = uart_out m @ wire_frame [REPLY_ERROR, e]"
  by (simp add: reply_error_wire [OF assms] wire_frame_def encode_bytes_def xor_bytes_def
      code_defs)

lemma reply_success_frame:
  assumes "msg_ok d m"
  shows "uart_out (reply_success m) = uart_out m @ wire_frame [REPLY_SUCCESS]"
  by (simp add: reply_success_wire [OF assms] wire_frame_def encode_bytes_def xor_bytes_def
      code_defs)

lemma command_read_data:
  assumes "msg_ok d m"
  shows "take (SPM_PAGESIZE d) (tl (msg_buffer (command_read d m))) =
     map (flash m) [page_address d m..<page_address d m + SPM_PAGESIZE d]"
proof -
  have len: "length (msg_buffer m) = SPM_PAGESIZE d + 3"
    using assms by (simp add: msg_ok_def sizeof_buffer_def)
  obtain a t where r: "msg_buffer m = a # t" using len by (cases "msg_buffer m") auto
  have "msg_buffer (command_read d m) =
      take 1 (msg_buffer m) @
      map (flash m) [page_address d m..<page_address d m + SPM_PAGESIZE d] @
      drop (1 + SPM_PAGESIZE d) (msg_buffer m)"
    using len by (simp add: command_read_def Let_def read_loop_result)
  then show ?thesis by (simp add: r)
qed

lemma command_verify_data:
  assumes "msg_ok d m"
  shows "take (Suc 0) (tl (msg_buffer (command_verify d m))) =
     [xor_bytes (map (flash m) [page_address d m..<page_address d m + SPM_PAGESIZE d])]"
proof -
  have len: "length (msg_buffer m) = SPM_PAGESIZE d + 3"
    using assms by (simp add: msg_ok_def sizeof_buffer_def)
  obtain a t where r: "msg_buffer m = a # t" using len by (cases "msg_buffer m") auto
  obtain b u where t: "t = b # u" using len r by (cases t) auto
  show ?thesis
    by (simp add: command_verify_def Let_def verify_loop_result r t)
qed

lemma uart_out_process_msg:
  assumes "page_size_ok d" and "msg_ok d m"
  shows "uart_out (process_msg d m) =
     uart_out m @
     reply_bytes d (msg_buffer m ! 0) (msg_buffer m ! 1) (payload_size m) (flash m)"
proof -
  have small: "SPM_PAGESIZE d < 255" using assms(1) by (simp add: device_ok_def page_size_ok_def)
  have okw: "msg_ok d (command_write d m)" using assms(2) by (simp add: msg_ok_def)
  have okr: "msg_ok d (command_read d m)" using assms(2) by (simp add: msg_ok_def)
  have okv: "msg_ok d (command_verify d m)" using assms(2) by (simp add: msg_ok_def)
  have rd: "uart_out (reply_data REPLY_READ (SPM_PAGESIZE d) (command_read d m)) =
      uart_out m @ wire_frame (REPLY_READ #
        map (flash m) [page_address d m..<page_address d m + SPM_PAGESIZE d])"
    by (simp add: reply_data_wire [OF okr small] command_read_data [OF assms(2)])
  have vf: "uart_out (reply_data REPLY_VERIFY 1 (command_verify d m)) =
      uart_out m @ wire_frame [REPLY_VERIFY,
        xor_bytes (map (flash m) [page_address d m..<page_address d m + SPM_PAGESIZE d])]"
    using reply_data_wire [OF okv, of 1 REPLY_VERIFY] command_verify_data [OF assms(2)]
    by simp
  have ne: "COMMAND_PING \<noteq> COMMAND_QUIT" "COMMAND_PING \<noteq> COMMAND_WRITE"
    "COMMAND_PING \<noteq> COMMAND_VERIFY" "COMMAND_PING \<noteq> COMMAND_READ"
    "COMMAND_WRITE \<noteq> COMMAND_QUIT" "COMMAND_WRITE \<noteq> COMMAND_VERIFY"
    "COMMAND_WRITE \<noteq> COMMAND_READ" "COMMAND_VERIFY \<noteq> COMMAND_READ"
    "COMMAND_VERIFY \<noteq> COMMAND_QUIT" "COMMAND_READ \<noteq> COMMAND_QUIT"
    by (simp_all add: code_defs)
  show ?thesis
    unfolding process_msg_def reply_bytes_def Let_def
    using ne rd vf
    by (auto simp: reply_error_frame [OF assms(2)] reply_success_frame [OF assms(2)]
        reply_success_frame [OF okw] program_main_def page_address_def)
qed

lemma flash_process_msg:
  "payload_size m \<noteq> SPM_PAGESIZE d + 1 \<Longrightarrow> flash (process_msg d m) = flash m"
  by (simp add: process_msg_def Let_def program_main_def)

lemma loop_run_jumped: "jumped m \<Longrightarrow> loop_run d m bytes = Some m"
  by (cases bytes) simp_all

lemma loop_run_append:
  "loop_run d m (xs @ ys) =
     (case loop_run d m xs of None \<Rightarrow> None | Some m' \<Rightarrow> loop_run d m' ys)"
proof (induction xs arbitrary: m)
  case Nil
  show ?case by simp
next
  case (Cons x xs)
  show ?case
  proof (cases "jumped m")
    case True
    then show ?thesis by (simp add: loop_run_jumped)
  next
    case False
    then show ?thesis by (cases "loop_step d m x") (simp_all add: Cons.IH)
  qed
qed

subsection \<open>The claims\<close>

text \<open>
  Claim C1, as stated, fails: the code accepts page numbers inside the bootloader's own
  resident region. On the 8 KiB device the frame of a Write to page 127, byte address
  \<open>0x1fc0\<close> in the boot section, sent to the freshly started loop, is answered with
  Success and that address of the erased flash is programmed.
\<close>

theorem boot_section_page_accepted:
  "\<not> app_page_valid atmega8 atmega8_boot_start (unat (0x7f :: uint8_t)) \<and>
   map_option uart_out
     (loop_run atmega8 (loop_init atmega8 blank_flash 0 0)
        (0xf0 # 0x00 # 0x70 # 0x01 #
         encode_bytes (COMMAND_WRITE # 0x7f # replicate 64 0x5a @ [0x6e]) @ [0xf7])) =
     Some [0xf0, 0x00, 0x70, 0x01, 0x02, 0x00, 0x02, 0x00, 0xf7] \<and>
   flash (the
     (loop_run atmega8 (loop_init atmega8 blank_flash 0 0)
        (0xf0 # 0x00 # 0x70 # 0x01 #
         encode_bytes (COMMAND_WRITE # 0x7f # replicate 64 0x5a @ [0x6e]) @ [0xf7]))) 0x1fc0 =
     0x5a \<and>
   blank_flash 0x1fc0 = 0xff"
proof -
  let ?bs = "COMMAND_WRITE # 0x7f # replicate 64 0x5a @ [0x6e]"
  let ?i = "loop_init atmega8 blank_flash 0 0"
  have len: "length ?bs = sizeof_buffer atmega8" by (simp add: atmega8_facts)
  have x: "xor_bytes ?bs = 0"
    by (simp add: xor_bytes_Cons xor_bytes_snoc xor_bytes_replicate COMMAND_WRITE_def)
  obtain m where run: "loop_run atmega8 ?i (0xf0 # 0x00 # 0x70 # 0x01 # encode_bytes ?bs) = Some m"
    and buf: "msg_buffer m = ?bs @ replicate (sizeof_buffer atmega8 - length ?bs) 0"
    and f: "payload_size m = length ?bs" "checksum m = xor_bytes ?bs"
      "state m = STATE_EXPECTING_END" "uart_out m = []" "flash m = blank_flash" "\<not> jumped m"
      "msg_ok atmega8 m"
    using frame_body_run [OF atmega8_facts(5), of ?bs blank_flash 0 0] len
    by (auto simp del: length_Cons length_append replicate.simps)
  let ?x = "m\<lparr>payload_size := 65\<rparr>"
  have st: "loop_step atmega8 m 0xf7 = Some (end_frame (process_msg atmega8 ?x))"
    using f(1,2,3) x by (simp add: loop_step_def)
  have okx: "msg_ok atmega8 ?x" using f(7) by (simp add: msg_ok_def)
  have okw: "msg_ok atmega8 (command_write atmega8 ?x)" using okx by (simp add: msg_ok_def)
  have b: "msg_buffer ?x ! 0 = COMMAND_WRITE" "msg_buffer ?x ! 1 = 0x7f" "msg_buffer ?x ! 2 = 0x5a"
    by (simp_all add: buf nth_append)
  have p: "process_msg atmega8 ?x = reply_success (command_write atmega8 ?x)"
    using b by (simp add: process_msg_def Let_def code_defs atmega8_facts)
  have pa: "page_address atmega8 ?x = 0x1fc0"
    using b(2) by (simp add: page_address_def atmega8_facts)
  have nj: "\<not> jumped (process_msg atmega8 ?x)" using f(6) by (simp add: p)
  have fl: "flash (end_frame (process_msg atmega8 ?x)) 0x1fc0 = 0x5a"
    using b(3) by (simp add: p command_write_flash pa atmega8_facts)
  have u: "uart_out (end_frame (process_msg atmega8 ?x)) =
      [0xf0, 0x00, 0x70, 0x01, 0x02, 0x00, 0x02, 0x00, 0xf7]"
    using f(4) by (simp add: p reply_success_wire [OF okw])
  have "loop_run atmega8 ?i ((0xf0 # 0x00 # 0x70 # 0x01 # encode_bytes ?bs) @ [0xf7]) =
      Some (end_frame (process_msg atmega8 ?x))"
    unfolding loop_run_append run using f(6) st by simp
  then have full: "loop_run atmega8 ?i (0xf0 # 0x00 # 0x70 # 0x01 # encode_bytes ?bs @ [0xf7]) =
      Some (end_frame (process_msg atmega8 ?x))"
    by simp
  have n: "\<not> app_page_valid atmega8 atmega8_boot_start (unat (0x7f :: uint8_t))"
    by (simp add: app_page_valid_def atmega8_boot_start_def atmega8_facts)
  show ?thesis unfolding full using n u fl by (simp add: blank_flash_def)
qed

text \<open>
  Claim C1, amended. On a device whose \<open>FLASHEND + 1\<close> fits the 16-bit \<open>int\<close>, for a
  Write, Read or Verify request of the right payload size the page number is accepted
  if and only if it is below \<open>NUM_PAGES = (FLASHEND + 1) /
  SPM_PAGESIZE\<close>, that is, if and only if the page lies within the whole flash, the
  bootloader's region included. An accepted request gets its Success, Read or Verify
  reply; a rejected one gets exactly \<open>Error(InvalidPageNumber)\<close> and leaves the flash
  unchanged. In particular page \<open>NUM_PAGES - 1\<close> succeeds and page \<open>NUM_PAGES\<close>,
  when it fits the page-number byte, is rejected.
\<close>

theorem page_number_check:
  assumes "device_ok d" and "msg_ok d m"
    and "msg_buffer m ! 0 = COMMAND_WRITE \<and> payload_size m = SPM_PAGESIZE d + 1 \<or>
         msg_buffer m ! 0 = COMMAND_READ \<and> payload_size m = 1 \<or>
         msg_buffer m ! 0 = COMMAND_VERIFY \<and> payload_size m = 1"
  shows
    "(unat (msg_buffer m ! 1) < NUM_PAGES d \<longleftrightarrow>
        unat (msg_buffer m ! 1) * SPM_PAGESIZE d + SPM_PAGESIZE d \<le> FLASHEND d + 1) \<and>
     (unat (msg_buffer m ! 1) < NUM_PAGES d \<longrightarrow>
        msg_buffer (process_msg d m) ! 0 =
          (if msg_buffer m ! 0 = COMMAND_WRITE then REPLY_SUCCESS
           else if msg_buffer m ! 0 = COMMAND_READ then REPLY_READ else REPLY_VERIFY) \<and>
        take 6 (drop (length (uart_out m)) (uart_out (process_msg d m))) =
          [0xf0, 0x00, 0x70, 0x01, 0x02,
           if msg_buffer m ! 0 = COMMAND_WRITE then 0x00
           else if msg_buffer m ! 0 = COMMAND_READ then 0x02 else 0x03]) \<and>
     (\<not> unat (msg_buffer m ! 1) < NUM_PAGES d \<longrightarrow>
        process_msg d m =
          m\<lparr>msg_buffer := (msg_buffer m)[0 := REPLY_ERROR, 1 := ERROR_INVALID_PAGE_NUMBER],
            uart_out := uart_out m @
              [0xf0, 0x00, 0x70, 0x01, 0x02, 0x01, 0x00, 0x08, 0x02, 0x09, 0xf7]\<rparr> \<and>
        flash (process_msg d m) = flash m)"
proof -
  have pos: "0 < SPM_PAGESIZE d" and small: "SPM_PAGESIZE d < 255"
    using assms(1) by (simp_all add: device_ok_def page_size_ok_def)
  have l: "0 < length (msg_buffer m)" using msg_okD(2) [OF assms(2)] by (simp del: length_greater_0_conv)
  have okw: "msg_ok d (command_write d m)" using assms(2) by (simp add: msg_ok_def)
  have okr: "msg_ok d (command_read d m)" using assms(2) by (simp add: msg_ok_def)
  have okv: "msg_ok d (command_verify d m)" using assms(2) by (simp add: msg_ok_def)
  have lr: "0 < length (msg_buffer (command_read d m))" using l by simp
  have lv: "0 < length (msg_buffer (command_verify d m))" using l by simp
  have wv: "\<And>c. reply_data c (Suc 0) (command_verify d m) =
      (command_verify d m)\<lparr>msg_buffer := (msg_buffer (command_verify d m))[0 := c],
        uart_out := uart_out (command_verify d m) @
          wire_frame (c # take (Suc 0) (tl (msg_buffer (command_verify d m))))\<rparr>"
    subgoal for c using reply_data_wire [OF okv, of 1 c] by simp
    done
  note wires = reply_error_wire [OF assms(2)] reply_success_wire [OF okw]
    reply_data_wire [OF okr small] wv
  consider (w) "msg_buffer m ! 0 = COMMAND_WRITE" "payload_size m = SPM_PAGESIZE d + 1"
    | (r) "msg_buffer m ! 0 = COMMAND_READ" "payload_size m = 1"
    | (v) "msg_buffer m ! 0 = COMMAND_VERIFY" "payload_size m = 1"
    using assms(3) by blast
  then have "(unat (msg_buffer m ! 1) < NUM_PAGES d \<longrightarrow>
        msg_buffer (process_msg d m) ! 0 =
          (if msg_buffer m ! 0 = COMMAND_WRITE then REPLY_SUCCESS
           else if msg_buffer m ! 0 = COMMAND_READ then REPLY_READ else REPLY_VERIFY) \<and>
        take 6 (drop (length (uart_out m)) (uart_out (process_msg d m))) =
          [0xf0, 0x00, 0x70, 0x01, 0x02,
           if msg_buffer m ! 0 = COMMAND_WRITE then 0x00
           else if msg_buffer m ! 0 = COMMAND_READ then 0x02 else 0x03]) \<and>
     (\<not> unat (msg_buffer m ! 1) < NUM_PAGES d \<longrightarrow>
        process_msg d m =
          m\<lparr>msg_buffer := (msg_buffer m)[0 := REPLY_ERROR, 1 := ERROR_INVALID_PAGE_NUMBER],
            uart_out := uart_out m @
              [0xf0, 0x00, 0x70, 0x01, 0x02, 0x01, 0x00, 0x08, 0x02, 0x09, 0xf7]\<rparr> \<and>
        flash (process_msg d m) = flash m)"
  proof cases
    case w
    then show ?thesis
      using l by (simp add: process_msg_def Let_def wires code_defs)
  next
    case r
    then show ?thesis
      using l lr by (simp add: process_msg_def Let_def wires wire_frame_Cons code_defs)
  next
    case v
    then show ?thesis
      using l lv by (simp add: process_msg_def Let_def wires wire_frame_Cons code_defs)
  qed
  then show ?thesis using page_in_flash [OF pos] by blast
qed

theorem page_number_check_witness:
  "device_ok atmega8 \<and> NUM_PAGES atmega8 = 128 \<and>
   msg_ok atmega8 (decoded_request atmega8 blank_flash [COMMAND_READ, 0x7f, 0x6d]) \<and>
   msg_buffer (decoded_request atmega8 blank_flash [COMMAND_READ, 0x7f, 0x6d]) ! 0 = COMMAND_READ \<and>
   payload_size (decoded_request atmega8 blank_flash [COMMAND_READ, 0x7f, 0x6d]) = 1 \<and>
   unat (msg_buffer (decoded_request atmega8 blank_flash [COMMAND_READ, 0x7f, 0x6d]) ! 1) = 127 \<and>
   msg_buffer (process_msg atmega8 (decoded_request atmega8 blank_flash [COMMAND_READ, 0x7f, 0x6d]))
     ! 0 = REPLY_READ \<and>
   msg_ok atmega8 (decoded_request atmega8 blank_flash [COMMAND_READ, 0x80, 0x92]) \<and>
   msg_buffer (decoded_request atmega8 blank_flash [COMMAND_READ, 0x80, 0x92]) ! 0 = COMMAND_READ \<and>
   payload_size (decoded_request atmega8 blank_flash [COMMAND_READ, 0x80, 0x92]) = 1 \<and>
   unat (msg_buffer (decoded_request atmega8 blank_flash [COMMAND_READ, 0x80, 0x92]) ! 1) = 128 \<and>
   uart_out (process_msg atmega8 (decoded_request atmega8 blank_flash [COMMAND_READ, 0x80, 0x92])) =
     [0xf0, 0x00, 0x70, 0x01, 0x02, 0x01, 0x00, 0x08, 0x02, 0x09, 0xf7]"
proof -
  let ?a = "decoded_request atmega8 blank_flash [COMMAND_READ, 0x7f, 0x6d]"
  let ?b = "decoded_request atmega8 blank_flash [COMMAND_READ, 0x80, 0x92]"
  have oka: "msg_ok atmega8 ?a" and okb: "msg_ok atmega8 ?b"
    by (rule msg_ok_decoded_request, simp add: atmega8_facts)+
  have fa: "msg_buffer ?a ! 0 = COMMAND_READ" "payload_size ?a = 1"
    "unat (msg_buffer ?a ! 1) = 127"
    by (simp_all add: decoded_request_fields)
  have fb: "msg_buffer ?b ! 0 = COMMAND_READ" "payload_size ?b = 1"
    "unat (msg_buffer ?b ! 1) = 128"
    by (simp_all add: decoded_request_fields)
  have ra: "msg_buffer (process_msg atmega8 ?a) ! 0 = REPLY_READ"
    using page_number_check [OF atmega8_facts(1) oka] fa
    by (simp add: atmega8_facts code_defs)
  have rb: "uart_out (process_msg atmega8 ?b) =
      [0xf0, 0x00, 0x70, 0x01, 0x02, 0x01, 0x00, 0x08, 0x02, 0x09, 0xf7]"
    using page_number_check [OF atmega8_facts(1) okb] fb
    by (simp add: atmega8_facts decoded_request_fields)
  show ?thesis
    using atmega8_facts(1,4) oka okb fa fb ra rb by simp
qed

text \<open>
  Claim C2. A Write request that fails validation gets exactly one Error reply with the
  specific code, and \<open>command_write\<close> is not called, so the flash is unchanged: a
  payload size other than one page plus the page-number byte gives
  \<open>Error(InvalidPayloadSize)\<close>, whatever the page number (the size check comes first);
  a right size with a page number out of range gives \<open>Error(InvalidPageNumber)\<close>.
  Erase and program run only when both checks pass, followed by the Success reply.
  The device is one whose \<open>FLASHEND + 1\<close> fits the 16-bit \<open>int\<close>, so that the range
  check of the model is the range check of the source.
\<close>

theorem write_validation:
  assumes "device_ok d" and "msg_ok d m" and "msg_buffer m ! 0 = COMMAND_WRITE"
  shows
    "(payload_size m \<noteq> SPM_PAGESIZE d + 1 \<longrightarrow>
        process_msg d m =
          m\<lparr>msg_buffer := (msg_buffer m)[0 := REPLY_ERROR, 1 := ERROR_INVALID_PAYLOAD_SIZE],
            uart_out := uart_out m @
              [0xf0, 0x00, 0x70, 0x01, 0x02, 0x01, 0x00, 0x07, 0x02, 0x06, 0xf7]\<rparr> \<and>
        flash (process_msg d m) = flash m) \<and>
     (payload_size m = SPM_PAGESIZE d + 1 \<and> \<not> unat (msg_buffer m ! 1) < NUM_PAGES d \<longrightarrow>
        process_msg d m =
          m\<lparr>msg_buffer := (msg_buffer m)[0 := REPLY_ERROR, 1 := ERROR_INVALID_PAGE_NUMBER],
            uart_out := uart_out m @
              [0xf0, 0x00, 0x70, 0x01, 0x02, 0x01, 0x00, 0x08, 0x02, 0x09, 0xf7]\<rparr> \<and>
        flash (process_msg d m) = flash m) \<and>
     (payload_size m = SPM_PAGESIZE d + 1 \<and> unat (msg_buffer m ! 1) < NUM_PAGES d \<longrightarrow>
        process_msg d m =
          (command_write d m)\<lparr>msg_buffer := (msg_buffer m)[0 := REPLY_SUCCESS],
            uart_out := uart_out m @
              [0xf0, 0x00, 0x70, 0x01, 0x02, 0x00, 0x02, 0x00, 0xf7]\<rparr>)"
proof -
  have w: "msg_ok d (command_write d m)" using assms(2) by (simp add: msg_ok_command_write)
  have c: "COMMAND_WRITE \<noteq> COMMAND_PING" by (simp add: code_defs)
  show ?thesis
    using assms(3) c
    by (simp add: process_msg_def Let_def reply_error_wire [OF assms(2)]
        reply_success_wire [OF w] ERROR_INVALID_PAYLOAD_SIZE_def ERROR_INVALID_PAGE_NUMBER_def)
qed

theorem write_validation_witness:
  "device_ok atmega8 \<and> NUM_PAGES atmega8 = 128 \<and>
   msg_ok atmega8 (decoded_request atmega8 blank_flash
      (COMMAND_WRITE # 0x05 # replicate 63 0x5a @ [0x4e])) \<and>
   payload_size (decoded_request atmega8 blank_flash
      (COMMAND_WRITE # 0x05 # replicate 63 0x5a @ [0x4e])) = 64 \<and>
   uart_out (process_msg atmega8 (decoded_request atmega8 blank_flash
      (COMMAND_WRITE # 0x05 # replicate 63 0x5a @ [0x4e]))) =
     [0xf0, 0x00, 0x70, 0x01, 0x02, 0x01, 0x00, 0x07, 0x02, 0x06, 0xf7] \<and>
   flash (process_msg atmega8 (decoded_request atmega8 blank_flash
      (COMMAND_WRITE # 0x05 # replicate 63 0x5a @ [0x4e]))) = blank_flash \<and>
   msg_ok atmega8 (decoded_request atmega8 blank_flash
      (COMMAND_WRITE # 0x80 # replicate 64 0x5a @ [0x91])) \<and>
   payload_size (decoded_request atmega8 blank_flash
      (COMMAND_WRITE # 0x80 # replicate 64 0x5a @ [0x91])) = 65 \<and>
   uart_out (process_msg atmega8 (decoded_request atmega8 blank_flash
      (COMMAND_WRITE # 0x80 # replicate 64 0x5a @ [0x91]))) =
     [0xf0, 0x00, 0x70, 0x01, 0x02, 0x01, 0x00, 0x08, 0x02, 0x09, 0xf7] \<and>
   flash (process_msg atmega8 (decoded_request atmega8 blank_flash
      (COMMAND_WRITE # 0x80 # replicate 64 0x5a @ [0x91]))) = blank_flash \<and>
   msg_ok atmega8 (decoded_request atmega8 blank_flash
      (COMMAND_WRITE # 0x05 # replicate 64 0x5a @ [0x14])) \<and>
   uart_out (process_msg atmega8 (decoded_request atmega8 blank_flash
      (COMMAND_WRITE # 0x05 # replicate 64 0x5a @ [0x14]))) =
     [0xf0, 0x00, 0x70, 0x01, 0x02, 0x00, 0x02, 0x00, 0xf7] \<and>
   flash (process_msg atmega8 (decoded_request atmega8 blank_flash
      (COMMAND_WRITE # 0x05 # replicate 64 0x5a @ [0x14]))) 320 = 0x5a"
proof -
  let ?a = "decoded_request atmega8 blank_flash (COMMAND_WRITE # 0x05 # replicate 63 0x5a @ [0x4e])"
  let ?b = "decoded_request atmega8 blank_flash (COMMAND_WRITE # 0x80 # replicate 64 0x5a @ [0x91])"
  let ?c = "decoded_request atmega8 blank_flash (COMMAND_WRITE # 0x05 # replicate 64 0x5a @ [0x14])"
  have oka: "msg_ok atmega8 ?a" and okb: "msg_ok atmega8 ?b" and okc: "msg_ok atmega8 ?c"
    by (rule msg_ok_decoded_request, simp add: atmega8_facts)+
  have ca: "msg_buffer ?a ! 0 = COMMAND_WRITE" and cb: "msg_buffer ?b ! 0 = COMMAND_WRITE"
    and cc: "msg_buffer ?c ! 0 = COMMAND_WRITE"
    by (simp_all add: decoded_request_fields)
  have pa: "payload_size ?a = 64" and pb: "payload_size ?b = 65" and pc: "payload_size ?c = 65"
    by (simp_all add: decoded_request_fields)
  have nb: "unat (msg_buffer ?b ! 1) = 128" and nc: "unat (msg_buffer ?c ! 1) = 5"
    by (simp_all add: decoded_request_fields)
  have ra: "uart_out (process_msg atmega8 ?a) =
        [0xf0, 0x00, 0x70, 0x01, 0x02, 0x01, 0x00, 0x07, 0x02, 0x06, 0xf7]"
      "flash (process_msg atmega8 ?a) = blank_flash"
    using write_validation [OF atmega8_facts(1) oka ca] pa
    by (simp_all add: atmega8_facts decoded_request_fields)
  have rb: "uart_out (process_msg atmega8 ?b) =
        [0xf0, 0x00, 0x70, 0x01, 0x02, 0x01, 0x00, 0x08, 0x02, 0x09, 0xf7]"
      "flash (process_msg atmega8 ?b) = blank_flash"
    using write_validation [OF atmega8_facts(1) okb cb] pb nb
    by (simp_all add: atmega8_facts decoded_request_fields)
  have pg: "page_address atmega8 ?c = 320"
    using nc by (simp add: page_address_def atmega8_facts)
  have d: "msg_buffer ?c ! 2 = 0x5a" by (simp add: decoded_request_fields nth_append)
  have rc: "uart_out (process_msg atmega8 ?c) =
        [0xf0, 0x00, 0x70, 0x01, 0x02, 0x00, 0x02, 0x00, 0xf7]"
      "flash (process_msg atmega8 ?c) 320 = 0x5a"
    using write_validation [OF atmega8_facts(1) okc cc] pc nc d
    by (simp_all add: atmega8_facts decoded_request_fields command_write_flash pg)
  show ?thesis using atmega8_facts(1,4) oka okb okc pa pb ra rb rc by simp
qed

text \<open>
  Claim C3, as stated, fails on the same boundary. The frame \<open>F0 00 70 01 01 00 F7\<close>
  contains the command byte (\<open>0x10\<close>, Ping) and its running checksum at the end
  delimiter is \<open>0x10\<close>, not zero, so the claim's code for it is \<open>InvalidChecksum\<close>;
  the code replies \<open>Error(InvalidFormat)\<close>.
\<close>

theorem ping_without_checksum_invalid_format:
  "map_option state
     (loop_run atmega8 (loop_init atmega8 blank_flash 0 0) [0xf0, 0x00, 0x70, 0x01, 0x01, 0x00])
     = Some STATE_READING_BODY \<and>
   map_option msg_buffer
     (loop_run atmega8 (loop_init atmega8 blank_flash 0 0) [0xf0, 0x00, 0x70, 0x01, 0x01, 0x00])
     = Some ((replicate 67 0)[0 := COMMAND_PING]) \<and>
   map_option payload_size
     (loop_run atmega8 (loop_init atmega8 blank_flash 0 0) [0xf0, 0x00, 0x70, 0x01, 0x01, 0x00])
     = Some 1 \<and>
   map_option checksum
     (loop_run atmega8 (loop_init atmega8 blank_flash 0 0) [0xf0, 0x00, 0x70, 0x01, 0x01, 0x00])
     = Some 0x10 \<and>
   map_option uart_out
     (loop_run atmega8 (loop_init atmega8 blank_flash 0 0)
        [0xf0, 0x00, 0x70, 0x01, 0x01, 0x00, 0xf7])
     = Some [0xf0, 0x00, 0x70, 0x01, 0x02, 0x01, 0x00, 0x02, 0x02, 0x03, 0xf7]"
  by (simp add: eval_defs reply_error_eq)

text \<open>
  Claim C3, amended. For every sequence of input bytes and the state the parser has
  reached on it, a malformed frame causes exactly one Error reply with the
  corresponding code and leaves the parser in \<open>Idle\<close>: a data byte that differs from
  the expected header byte gives \<open>HeaderMismatch\<close>; a data byte above \<open>0x0f\<close> in the
  body gives \<open>InvalidNibble\<close>; an end delimiter after at least two decoded bytes with
  a non-zero checksum gives \<open>InvalidChecksum\<close>; an end delimiter before the header is
  complete or after at most one decoded byte (a frame too short to contain the command
  byte and a checksum byte) gives \<open>InvalidFormat\<close>. In \<open>Idle\<close> every byte but the
  start delimiter is ignored, so the rest of an aborted frame causes no second reply.
\<close>

theorem malformed_frame_errors:
  assumes "loop_run d (loop_init d fl cs0 br0) bytes = Some m" and "\<not> jumped m"
  shows
    "(state m = STATE_MATCHING_HEADER \<and> byte < 0x80 \<and>
      byte \<noteq> [0x00, 0x70, 0x01] ! bytes_read m \<longrightarrow>
        loop_step d m byte =
          Some (m\<lparr>state := STATE_IDLE, bytes_read := bytes_read m + 1,
                  msg_buffer := (msg_buffer m)[0 := REPLY_ERROR, 1 := ERROR_HEADER_MISMATCH],
                  uart_out := uart_out m @
                    [0xf0, 0x00, 0x70, 0x01, 0x02, 0x01, 0x00, 0x01, 0x02, 0x00, 0xf7]\<rparr>)) \<and>
     (state m = STATE_READING_BODY \<and> byte < 0x80 \<and> 0x0f < byte \<longrightarrow>
        loop_step d m byte =
          Some (m\<lparr>state := STATE_IDLE,
                  msg_buffer := (msg_buffer m)[0 := REPLY_ERROR, 1 := ERROR_INVALID_NIBBLE],
                  uart_out := uart_out m @
                    [0xf0, 0x00, 0x70, 0x01, 0x02, 0x01, 0x00, 0x04, 0x02, 0x05, 0xf7]\<rparr>)) \<and>
     ((state m = STATE_READING_BODY \<or> state m = STATE_EXPECTING_END) \<and>
      1 < payload_size m \<and> checksum m \<noteq> 0 \<longrightarrow>
        loop_step d m 0xf7 =
          Some (m\<lparr>state := STATE_IDLE,
                  msg_buffer := (msg_buffer m)[0 := REPLY_ERROR, 1 := ERROR_INVALID_CHECKSUM],
                  uart_out := uart_out m @
                    [0xf0, 0x00, 0x70, 0x01, 0x02, 0x01, 0x00, 0x05, 0x02, 0x04, 0xf7]\<rparr>)) \<and>
     (state m = STATE_MATCHING_HEADER \<or>
      (state m = STATE_READING_BODY \<or> state m = STATE_EXPECTING_END) \<and> payload_size m \<le> 1 \<longrightarrow>
        loop_step d m 0xf7 =
          Some (m\<lparr>state := STATE_IDLE,
                  msg_buffer := (msg_buffer m)[0 := REPLY_ERROR, 1 := ERROR_INVALID_FORMAT],
                  uart_out := uart_out m @
                    [0xf0, 0x00, 0x70, 0x01, 0x02, 0x01, 0x00, 0x02, 0x02, 0x03, 0xf7]\<rparr>)) \<and>
     (state m = STATE_IDLE \<and> byte \<noteq> 0xf0 \<longrightarrow> loop_step d m byte = Some m)"
proof -
  obtain m' where "loop_run d (loop_init d fl cs0 br0) bytes = Some m'" and "parser_inv d m'"
    using loop_run_inv [OF parser_inv_init] by blast
  then have pi: "parser_inv d m" using assms(1) by simp
  then have ok: "msg_ok d m" by (simp add: parser_inv_def)
  have hd: "msg_header m = [0x00, 0x70, 0x01]" by (rule msg_okD(1) [OF ok])
  have br: "state m = STATE_MATCHING_HEADER \<Longrightarrow> bytes_read m < 3"
    using pi assms(2) by (simp add: parser_inv_def)
  have okb: "msg_ok d (m\<lparr>bytes_read := Suc (bytes_read m)\<rparr>)"
    using ok by (simp add: msg_ok_def)
  have e1: "reply_error ERROR_HEADER_MISMATCH (m\<lparr>bytes_read := Suc (bytes_read m)\<rparr>) =
      m\<lparr>bytes_read := Suc (bytes_read m),
        msg_buffer := (msg_buffer m)[0 := REPLY_ERROR, 1 := ERROR_HEADER_MISMATCH],
        uart_out := uart_out m @
          [0xf0, 0x00, 0x70, 0x01, 0x02, 0x01, 0x00, 0x01, 0x02, 0x00, 0xf7]\<rparr>"
    by (simp add: reply_error_wire [OF okb] ERROR_HEADER_MISMATCH_def)
  have c1: "state m = STATE_MATCHING_HEADER \<and> byte < 0x80 \<and>
      byte \<noteq> [0x00, 0x70, 0x01] ! bytes_read m \<longrightarrow>
        loop_step d m byte =
          Some (m\<lparr>state := STATE_IDLE, bytes_read := bytes_read m + 1,
                  msg_buffer := (msg_buffer m)[0 := REPLY_ERROR, 1 := ERROR_HEADER_MISMATCH],
                  uart_out := uart_out m @
                    [0xf0, 0x00, 0x70, 0x01, 0x02, 0x01, 0x00, 0x01, 0x02, 0x00, 0xf7]\<rparr>)"
  proof (intro impI, elim conjE)
    assume a: "state m = STATE_MATCHING_HEADER" "byte < 0x80"
      "byte \<noteq> [0x00, 0x70, 0x01] ! bytes_read m"
    have b: "bytes_read m < 3" using br a(1) by simp
    then have md: "Suc (bytes_read m) mod 65536 = Suc (bytes_read m)" by simp
    show "loop_step d m byte =
          Some (m\<lparr>state := STATE_IDLE, bytes_read := bytes_read m + 1,
                  msg_buffer := (msg_buffer m)[0 := REPLY_ERROR, 1 := ERROR_HEADER_MISMATCH],
                  uart_out := uart_out m @
                    [0xf0, 0x00, 0x70, 0x01, 0x02, 0x01, 0x00, 0x01, 0x02, 0x00, 0xf7]\<rparr>)"
      using a b hd by (simp add: loop_step_def Let_def md e1)
  qed
  have c2: "state m = STATE_READING_BODY \<and> byte < 0x80 \<and> 0x0f < byte \<longrightarrow>
        loop_step d m byte =
          Some (m\<lparr>state := STATE_IDLE,
                  msg_buffer := (msg_buffer m)[0 := REPLY_ERROR, 1 := ERROR_INVALID_NIBBLE],
                  uart_out := uart_out m @
                    [0xf0, 0x00, 0x70, 0x01, 0x02, 0x01, 0x00, 0x04, 0x02, 0x05, 0xf7]\<rparr>)"
    by (simp add: loop_step_def reply_error_wire [OF ok] ERROR_INVALID_NIBBLE_def)
  have c3: "(state m = STATE_READING_BODY \<or> state m = STATE_EXPECTING_END) \<and>
      1 < payload_size m \<and> checksum m \<noteq> 0 \<longrightarrow>
        loop_step d m 0xf7 =
          Some (m\<lparr>state := STATE_IDLE,
                  msg_buffer := (msg_buffer m)[0 := REPLY_ERROR, 1 := ERROR_INVALID_CHECKSUM],
                  uart_out := uart_out m @
                    [0xf0, 0x00, 0x70, 0x01, 0x02, 0x01, 0x00, 0x05, 0x02, 0x04, 0xf7]\<rparr>)"
    using assms(2)
    by (auto simp: loop_step_def end_frame_def reply_error_wire [OF ok]
        ERROR_INVALID_CHECKSUM_def)
  have c4: "state m = STATE_MATCHING_HEADER \<or>
      (state m = STATE_READING_BODY \<or> state m = STATE_EXPECTING_END) \<and> payload_size m \<le> 1 \<longrightarrow>
        loop_step d m 0xf7 =
          Some (m\<lparr>state := STATE_IDLE,
                  msg_buffer := (msg_buffer m)[0 := REPLY_ERROR, 1 := ERROR_INVALID_FORMAT],
                  uart_out := uart_out m @
                    [0xf0, 0x00, 0x70, 0x01, 0x02, 0x01, 0x00, 0x02, 0x02, 0x03, 0xf7]\<rparr>)"
    using assms(2)
    by (auto simp: loop_step_def end_frame_def reply_error_wire [OF ok]
        ERROR_INVALID_FORMAT_def)
  have c5: "state m = STATE_IDLE \<and> byte \<noteq> 0xf0 \<longrightarrow> loop_step d m byte = Some m"
    by (simp add: loop_step_def)
  show ?thesis using c1 c2 c3 c4 c5 by blast
qed

theorem malformed_frame_errors_witness:
  "(\<exists>m. loop_run atmega8 (loop_init atmega8 blank_flash 0 0) [0xf0, 0x00] = Some m \<and>
        \<not> jumped m \<and> state m = STATE_MATCHING_HEADER \<and> bytes_read m = 1 \<and>
        (0x33 :: uint8_t) < 0x80 \<and>
        loop_step atmega8 m 0x33 =
          Some (m\<lparr>state := STATE_IDLE, bytes_read := 2,
                  msg_buffer := (msg_buffer m)[0 := REPLY_ERROR, 1 := ERROR_HEADER_MISMATCH],
                  uart_out :=
                    [0xf0, 0x00, 0x70, 0x01, 0x02, 0x01, 0x00, 0x01, 0x02, 0x00, 0xf7]\<rparr>)) \<and>
   (\<exists>m. loop_run atmega8 (loop_init atmega8 blank_flash 0 0)
           [0xf0, 0x00, 0x70, 0x01, 0x01, 0x00, 0x01, 0x01] = Some m \<and>
        \<not> jumped m \<and> state m = STATE_READING_BODY \<and> payload_size m = 2 \<and>
        checksum m = 0x01 \<and>
        loop_step atmega8 m 0xf7 =
          Some (m\<lparr>state := STATE_IDLE,
                  msg_buffer := (msg_buffer m)[0 := REPLY_ERROR, 1 := ERROR_INVALID_CHECKSUM],
                  uart_out :=
                    [0xf0, 0x00, 0x70, 0x01, 0x02, 0x01, 0x00, 0x05, 0x02, 0x04, 0xf7]\<rparr>))"
proof -
  let ?i = "loop_init atmega8 blank_flash 0 0"
  let ?a = "?i\<lparr>state := STATE_MATCHING_HEADER, checksum := 0, bytes_read := 1, payload_size := 0\<rparr>"
  have ra: "loop_run atmega8 ?i [0xf0, 0x00] = Some ?a"
    by (simp add: loop_step_def Let_def loop_init_def code_defs)
  have fa: "\<not> jumped ?a" "state ?a = STATE_MATCHING_HEADER" "bytes_read ?a = 1"
    "uart_out ?a = []"
    by (simp_all add: loop_init_def)
  have sa: "loop_step atmega8 ?a 0x33 =
          Some (?a\<lparr>state := STATE_IDLE, bytes_read := 2,
                  msg_buffer := (msg_buffer ?a)[0 := REPLY_ERROR, 1 := ERROR_HEADER_MISMATCH],
                  uart_out :=
                    [0xf0, 0x00, 0x70, 0x01, 0x02, 0x01, 0x00, 0x01, 0x02, 0x00, 0xf7]\<rparr>)"
    using malformed_frame_errors [OF ra fa(1), of "0x33"] fa by simp
  have e: "encode_bytes [0x10, 0x11] = [0x01, 0x00, 0x01, 0x01]" by (simp add: encode_bytes_def)
  obtain b where rb: "loop_run atmega8 ?i [0xf0, 0x00, 0x70, 0x01, 0x01, 0x00, 0x01, 0x01] = Some b"
    and fb: "payload_size b = 2" "checksum b = 0x01" "state b = STATE_READING_BODY"
      "uart_out b = []" "\<not> jumped b"
    using frame_body_run [OF atmega8_facts(5), of "[0x10, 0x11]" blank_flash 0 0]
    by (auto simp: e atmega8_facts xor_bytes_def)
  have sb: "loop_step atmega8 b 0xf7 =
          Some (b\<lparr>state := STATE_IDLE,
                  msg_buffer := (msg_buffer b)[0 := REPLY_ERROR, 1 := ERROR_INVALID_CHECKSUM],
                  uart_out :=
                    [0xf0, 0x00, 0x70, 0x01, 0x02, 0x01, 0x00, 0x05, 0x02, 0x04, 0xf7]\<rparr>)"
    using malformed_frame_errors [OF rb fb(5), of "0x33"] fb by simp
  have lt: "(0x33 :: uint8_t) < 0x80" by simp
  show ?thesis using ra fa(1,2,3) lt sa rb fb(1,2,3,5) sb by blast
qed

text \<open>
  Claim C4, as stated, fails at a frame that holds the command byte and nothing else.
  After \<open>F0 00 70 01 01 04\<close> the parser has left \<open>MatchingHeader\<close>, one byte
  (\<open>0x14\<close>) is decoded, which is not fewer than the command-code field, and the running
  checksum is \<open>0x14\<close>, not zero: the claim gives \<open>Error(InvalidChecksum)\<close>. The code
  tests \<open>payload_size <= sizeof(msg.command)\<close> and replies \<open>Error(InvalidFormat)\<close>.
\<close>

theorem command_only_frame_invalid_format:
  "map_option state
     (loop_run atmega8 (loop_init atmega8 blank_flash 0 0) [0xf0, 0x00, 0x70, 0x01, 0x01, 0x04])
     = Some STATE_READING_BODY \<and>
   map_option payload_size
     (loop_run atmega8 (loop_init atmega8 blank_flash 0 0) [0xf0, 0x00, 0x70, 0x01, 0x01, 0x04])
     = Some 1 \<and>
   map_option checksum
     (loop_run atmega8 (loop_init atmega8 blank_flash 0 0) [0xf0, 0x00, 0x70, 0x01, 0x01, 0x04])
     = Some 0x14 \<and>
   map_option uart_out
     (loop_run atmega8 (loop_init atmega8 blank_flash 0 0)
        [0xf0, 0x00, 0x70, 0x01, 0x01, 0x04, 0xf7])
     = Some [0xf0, 0x00, 0x70, 0x01, 0x02, 0x01, 0x00, 0x02, 0x02, 0x03, 0xf7]"
  by (simp add: eval_defs reply_error_eq)

text \<open>
  Claim C4, amended. When the end delimiter \<open>0xf7\<close> arrives while a frame is in
  progress: if the parser never left \<open>MatchingHeader\<close> or at most one byte has been
  decoded (no byte beyond the command-code field), the result is
  \<open>Error(InvalidFormat)\<close>; otherwise, if the running checksum, which is the XOR of
  every decoded byte, is not zero, the result is \<open>Error(InvalidChecksum)\<close>; otherwise
  the message is dispatched with the payload size equal to the number of decoded bytes
  minus two. In the two error cases the parser is back in \<open>Idle\<close>; after a dispatch it
  is back in \<open>Idle\<close> unless the message was a Quit with an empty payload, which hands
  control to the resident application.
\<close>

theorem end_delimiter_finalize:
  assumes "page_size_ok d" and "loop_run d (loop_init d fl cs0 br0) bytes = Some m"
    and "\<not> jumped m" and "state m \<noteq> STATE_IDLE"
  shows
    "(state m = STATE_MATCHING_HEADER \<or> payload_size m \<le> 1 \<longrightarrow>
        loop_step d m 0xf7 =
          Some (m\<lparr>state := STATE_IDLE,
                  msg_buffer := (msg_buffer m)[0 := REPLY_ERROR, 1 := ERROR_INVALID_FORMAT],
                  uart_out := uart_out m @
                    [0xf0, 0x00, 0x70, 0x01, 0x02, 0x01, 0x00, 0x02, 0x02, 0x03, 0xf7]\<rparr>)) \<and>
     (state m \<noteq> STATE_MATCHING_HEADER \<and> 1 < payload_size m \<longrightarrow>
        checksum m = xor_bytes (take (payload_size m) (msg_buffer m)) \<and>
        (checksum m \<noteq> 0 \<longrightarrow>
           loop_step d m 0xf7 =
             Some (m\<lparr>state := STATE_IDLE,
                     msg_buffer := (msg_buffer m)[0 := REPLY_ERROR, 1 := ERROR_INVALID_CHECKSUM],
                     uart_out := uart_out m @
                       [0xf0, 0x00, 0x70, 0x01, 0x02, 0x01, 0x00, 0x05, 0x02, 0x04, 0xf7]\<rparr>)) \<and>
        (checksum m = 0 \<longrightarrow>
           loop_step d m 0xf7 =
             Some (end_frame (process_msg d (m\<lparr>payload_size := payload_size m - 2\<rparr>))) \<and>
           (jumped (process_msg d (m\<lparr>payload_size := payload_size m - 2\<rparr>)) \<longleftrightarrow>
              msg_buffer m ! 0 = COMMAND_QUIT \<and> payload_size m = 2) \<and>
           (\<not> jumped (process_msg d (m\<lparr>payload_size := payload_size m - 2\<rparr>)) \<longrightarrow>
              state (end_frame (process_msg d (m\<lparr>payload_size := payload_size m - 2\<rparr>))) =
                STATE_IDLE)))"
proof -
  have fi: "frame_inv d m"
    using loop_run_frame_inv [OF assms(1) frame_inv_init assms(2)] .
  then have pi: "parser_inv d m" by (simp add: frame_inv_def)
  then have ok: "msg_ok d m" by (simp add: parser_inv_def)
  have small: "sizeof_buffer d < 65536"
    using assms(1) by (simp add: device_ok_def page_size_ok_def sizeof_buffer_def)
  have bound: "payload_size m \<le> sizeof_buffer d"
    using pi assms(3,4) by (cases "state m") (auto simp: parser_inv_def)
  have sub: "(payload_size m + 65536 - 2) mod 65536 = payload_size m - 2"
    if "1 < payload_size m"
  proof -
    have "payload_size m + 65536 - 2 = (payload_size m - 2) + 65536" using that by simp
    then have "(payload_size m + 65536 - 2) mod 65536 = (payload_size m - 2) mod 65536"
      by (metis mod_add_self2)
    then show ?thesis using bound small by simp
  qed
  have cs: "state m \<noteq> STATE_MATCHING_HEADER \<Longrightarrow>
      checksum m = xor_bytes (take (payload_size m) (msg_buffer m))"
    using fi assms(3,4) by (cases "state m") (auto simp: frame_inv_def)
  have f1: "state m = STATE_MATCHING_HEADER \<or> payload_size m \<le> 1 \<longrightarrow>
        loop_step d m 0xf7 =
          Some (m\<lparr>state := STATE_IDLE,
                  msg_buffer := (msg_buffer m)[0 := REPLY_ERROR, 1 := ERROR_INVALID_FORMAT],
                  uart_out := uart_out m @
                    [0xf0, 0x00, 0x70, 0x01, 0x02, 0x01, 0x00, 0x02, 0x02, 0x03, 0xf7]\<rparr>)"
    using assms(3,4)
    by (auto simp: loop_step_def state_not_idle_cases end_frame_def reply_error_wire [OF ok]
        ERROR_INVALID_FORMAT_def)
  have f2: "state m \<noteq> STATE_MATCHING_HEADER \<and> 1 < payload_size m \<and> checksum m \<noteq> 0 \<longrightarrow>
        loop_step d m 0xf7 =
             Some (m\<lparr>state := STATE_IDLE,
                     msg_buffer := (msg_buffer m)[0 := REPLY_ERROR, 1 := ERROR_INVALID_CHECKSUM],
                     uart_out := uart_out m @
                       [0xf0, 0x00, 0x70, 0x01, 0x02, 0x01, 0x00, 0x05, 0x02, 0x04, 0xf7]\<rparr>)"
    using assms(3,4)
    by (auto simp: loop_step_def state_not_idle_cases end_frame_def reply_error_wire [OF ok]
        ERROR_INVALID_CHECKSUM_def)
  have f3: "state m \<noteq> STATE_MATCHING_HEADER \<and> 1 < payload_size m \<and> checksum m = 0 \<longrightarrow>
        loop_step d m 0xf7 =
             Some (end_frame (process_msg d (m\<lparr>payload_size := payload_size m - 2\<rparr>)))"
    using assms(4) sub
    by (auto simp: loop_step_def state_not_idle_cases)
  have f4: "1 < payload_size m \<Longrightarrow>
      jumped (process_msg d (m\<lparr>payload_size := payload_size m - 2\<rparr>)) \<longleftrightarrow>
        msg_buffer m ! 0 = COMMAND_QUIT \<and> payload_size m = 2"
    using assms(3) by (auto simp: jumped_process_msg)
  have f5: "\<not> jumped (process_msg d (m\<lparr>payload_size := payload_size m - 2\<rparr>)) \<longrightarrow>
      state (end_frame (process_msg d (m\<lparr>payload_size := payload_size m - 2\<rparr>))) = STATE_IDLE"
    by (simp add: end_frame_def)
  show ?thesis using f1 f2 f3 f4 f5 cs by blast
qed

theorem end_delimiter_finalize_witness:
  "page_size_ok atmega8 \<and>
   (\<exists>m. loop_run atmega8 (loop_init atmega8 blank_flash 0 0)
           [0xf0, 0x00, 0x70, 0x01, 0x01, 0x00, 0x01, 0x00] = Some m \<and>
        \<not> jumped m \<and> state m = STATE_READING_BODY \<and> payload_size m = 2 \<and>
        checksum m = 0 \<and> checksum m = xor_bytes (take 2 (msg_buffer m)) \<and>
        loop_step atmega8 m 0xf7 =
          Some (end_frame (process_msg atmega8 (m\<lparr>payload_size := 0\<rparr>))) \<and>
        uart_out (end_frame (process_msg atmega8 (m\<lparr>payload_size := 0\<rparr>))) =
          [0xf0, 0x00, 0x70, 0x01, 0x02, 0x00, 0x02, 0x00, 0xf7] \<and>
        state (end_frame (process_msg atmega8 (m\<lparr>payload_size := 0\<rparr>))) = STATE_IDLE)"
proof -
  have e: "encode_bytes [0x10, 0x10] = [0x01, 0x00, 0x01, 0x00]" by (simp add: encode_bytes_def)
  obtain m where run: "loop_run atmega8 (loop_init atmega8 blank_flash 0 0)
           [0xf0, 0x00, 0x70, 0x01, 0x01, 0x00, 0x01, 0x00] = Some m"
    and buf: "msg_buffer m = [0x10, 0x10] @ replicate 65 0"
    and f: "payload_size m = 2" "checksum m = 0" "state m = STATE_READING_BODY"
      "uart_out m = []" "\<not> jumped m" "msg_ok atmega8 m"
    using frame_body_run [OF atmega8_facts(5), of "[0x10, 0x10]" blank_flash 0 0]
    by (auto simp: e atmega8_facts xor_bytes_def)
  have ni: "state m \<noteq> STATE_IDLE" using f(3) by simp
  note t = end_delimiter_finalize [OF atmega8_facts(5) run f(5) ni]
  have c: "checksum m = xor_bytes (take 2 (msg_buffer m))"
    and s: "loop_step atmega8 m 0xf7 =
          Some (end_frame (process_msg atmega8 (m\<lparr>payload_size := 0\<rparr>)))"
    and nj: "\<not> jumped (process_msg atmega8 (m\<lparr>payload_size := 0\<rparr>))"
    and id: "state (end_frame (process_msg atmega8 (m\<lparr>payload_size := 0\<rparr>))) = STATE_IDLE"
    using t f buf by (simp_all add: code_defs)
  have ok: "msg_ok atmega8 (m\<lparr>payload_size := 0\<rparr>)"
    using f(6) by (simp add: msg_ok_def)
  have u: "uart_out (end_frame (process_msg atmega8 (m\<lparr>payload_size := 0\<rparr>))) =
          [0xf0, 0x00, 0x70, 0x01, 0x02, 0x00, 0x02, 0x00, 0xf7]"
    using buf f(4) by (simp add: process_msg_def Let_def reply_success_wire [OF ok] code_defs)
  show ?thesis using atmega8_facts(5) run f(1-5) c s u id by blast
qed

text \<open>
  Claim C5. The nibble codec round-trips. The send loop transmits the nibble expansion
  \<open>encode_bytes\<close> of the bytes it is given; reassembling high-nibble-first pairs gives
  the bytes back; and the \<open>ReadingBody\<close> state of the parser, fed that expansion at the
  start of a frame body, leaves exactly the original bytes in the message buffer, for
  every byte sequence that fits the buffer (as every message of the protocol does).
\<close>

theorem nibble_codec_roundtrip:
  "snd (send_bytes bs cs s) = s\<lparr>uart_out := uart_out s @ encode_bytes bs\<rparr> \<and>
   decode_nibbles (encode_bytes bs) = bs \<and>
   (page_size_ok d \<and> msg_ok d m \<and> state m = STATE_READING_BODY \<and> \<not> jumped m \<and>
    even (bytes_read m) \<and> payload_size m = 0 \<and> length bs \<le> sizeof_buffer d \<longrightarrow>
      (\<exists>m'. loop_run d m (encode_bytes bs) = Some m' \<and>
            take (length bs) (msg_buffer m') = bs \<and> payload_size m' = length bs \<and>
            uart_out m' = uart_out m))"
proof (intro conjI impI)
  show "snd (send_bytes bs cs s) = s\<lparr>uart_out := uart_out s @ encode_bytes bs\<rparr>"
    by (simp add: send_bytes_eq)
  show "decode_nibbles (encode_bytes bs) = bs" by (rule decode_encode)
next
  assume a: "page_size_ok d \<and> msg_ok d m \<and> state m = STATE_READING_BODY \<and> \<not> jumped m \<and>
    even (bytes_read m) \<and> payload_size m = 0 \<and> length bs \<le> sizeof_buffer d"
  then have p: "payload_size m + length bs \<le> sizeof_buffer d" by simp
  have q: "payload_size m < sizeof_buffer d" using a by (simp add: sizeof_buffer_def)
  obtain m' where "loop_run d m (encode_bytes bs) = Some m'"
    and "msg_buffer m' = take (payload_size m) (msg_buffer m) @ bs @
           drop (payload_size m + length bs) (msg_buffer m)"
    and "payload_size m' = payload_size m + length bs" and "uart_out m' = uart_out m"
    using reading_body_encoded [of d m bs] a p q by blast
  with a show "\<exists>m'. loop_run d m (encode_bytes bs) = Some m' \<and>
            take (length bs) (msg_buffer m') = bs \<and> payload_size m' = length bs \<and>
            uart_out m' = uart_out m"
    by simp
qed

theorem nibble_codec_roundtrip_witness:
  "page_size_ok atmega8 \<and>
   msg_ok atmega8 ((loop_init atmega8 blank_flash 0 0)\<lparr>state := STATE_READING_BODY\<rparr>) \<and>
   length [0x12, 0xa5, 0xb7 :: uint8_t] \<le> sizeof_buffer atmega8 \<and>
   encode_bytes [0x12, 0xa5, 0xb7] = [0x01, 0x02, 0x0a, 0x05, 0x0b, 0x07] \<and>
   (\<exists>m'. loop_run atmega8 ((loop_init atmega8 blank_flash 0 0)\<lparr>state := STATE_READING_BODY\<rparr>)
            [0x01, 0x02, 0x0a, 0x05, 0x0b, 0x07] = Some m' \<and>
         take 3 (msg_buffer m') = [0x12, 0xa5, 0xb7] \<and> payload_size m' = 3)"
proof -
  let ?m = "(loop_init atmega8 blank_flash 0 0)\<lparr>state := STATE_READING_BODY\<rparr>"
  have d: "page_size_ok atmega8" by (simp add: page_size_ok_def atmega8_def)
  have ok: "msg_ok atmega8 ?m" by (simp add: msg_ok_def loop_init_def)
  have l: "length [0x12, 0xa5, 0xb7 :: uint8_t] \<le> sizeof_buffer atmega8"
    by (simp add: sizeof_buffer_def atmega8_def)
  have e: "encode_bytes [0x12, 0xa5, 0xb7] = [0x01, 0x02, 0x0a, 0x05, 0x0b, 0x07]"
    by (simp add: encode_bytes_def)
  have h: "state ?m = STATE_READING_BODY \<and> \<not> jumped ?m \<and> even (bytes_read ?m) \<and>
           payload_size ?m = 0"
    by (simp add: loop_init_def)
  have "\<exists>m'. loop_run atmega8 ?m (encode_bytes [0x12, 0xa5, 0xb7]) = Some m' \<and>
            take (length [0x12, 0xa5, 0xb7 :: uint8_t]) (msg_buffer m') = [0x12, 0xa5, 0xb7] \<and>
            payload_size m' = length [0x12, 0xa5, 0xb7 :: uint8_t] \<and>
            uart_out m' = uart_out ?m"
    using nibble_codec_roundtrip [of "[0x12, 0xa5, 0xb7]" 0 ?m atmega8 ?m] d ok l h
    by blast
  then obtain m' where "loop_run atmega8 ?m [0x01, 0x02, 0x0a, 0x05, 0x0b, 0x07] = Some m'"
    and "take 3 (msg_buffer m') = [0x12, 0xa5, 0xb7]" and "payload_size m' = 3"
    unfolding e by (auto simp: numeral_3_eq_3)
  then show ?thesis using d ok l e by blast
qed

text \<open>
  Claim C6. After a valid Write of one page of data to an in-range page, a Read request
  for the same page number, on any later machine whose flash is the one the Write left,
  replies with exactly the written bytes, and a Verify request replies with the single
  byte that is the XOR of those bytes. The flash primitives are the abstract ones of
  the section on flash primitives, and the device is one whose \<open>FLASHEND + 1\<close> fits
  the 16-bit \<open>int\<close>, where \<open>NUM_PAGES\<close> does not overflow.
\<close>

theorem write_then_read_verify:
  assumes "device_ok d" and "msg_ok d m" and "msg_buffer m ! 0 = COMMAND_WRITE"
    and "payload_size m = SPM_PAGESIZE d + 1" and "unat (msg_buffer m ! 1) < NUM_PAGES d"
    and "msg_ok d r" and "flash r = flash (process_msg d m)"
    and "msg_buffer r ! 1 = msg_buffer m ! 1" and "payload_size r = 1"
  shows
    "(msg_buffer r ! 0 = COMMAND_READ \<longrightarrow>
        uart_out (process_msg d r) =
          uart_out r @ wire_frame (REPLY_READ # take (SPM_PAGESIZE d) (drop 2 (msg_buffer m)))) \<and>
     (msg_buffer r ! 0 = COMMAND_VERIFY \<longrightarrow>
        uart_out (process_msg d r) =
          uart_out r @
          wire_frame [REPLY_VERIFY, xor_bytes (take (SPM_PAGESIZE d) (drop 2 (msg_buffer m)))])"
proof -
  let ?data = "take (SPM_PAGESIZE d) (drop 2 (msg_buffer m))"
  let ?page = "page_address d m"
  have pos: "0 < SPM_PAGESIZE d" and small: "SPM_PAGESIZE d < 255"
    using assms(1) by (simp_all add: device_ok_def page_size_ok_def)
  have okw: "msg_ok d (command_write d m)" using assms(2) by (simp add: msg_ok_def)
  have "process_msg d m = reply_success (command_write d m)"
    using assms(3,4,5) by (simp add: process_msg_def Let_def code_defs)
  then have fl: "flash r = flash (command_write d m)" using assms(7) by simp
  have page: "page_address d r = ?page" using assms(8) by (simp add: page_address_def)
  have lenm: "length (msg_buffer m) = sizeof_buffer d" using assms(2) by (simp add: msg_ok_def)
  have lenr: "length (msg_buffer r) = SPM_PAGESIZE d + 3"
    using assms(6) by (simp add: msg_ok_def sizeof_buffer_def)
  have "\<forall>a. ?page \<le> a \<and> a < ?page + SPM_PAGESIZE d \<longrightarrow>
      flash r a = msg_buffer m ! (2 + (a - ?page))"
    by (simp add: fl command_write_flash)
  then have rd: "map (flash r) [?page..<?page + SPM_PAGESIZE d] = ?data"
    by (rule page_data_read [OF lenm])
  have ld: "length ?data = SPM_PAGESIZE d" using lenm by (simp add: sizeof_buffer_def)
  have okr: "msg_ok d (command_read d r)" using assms(6) by (simp add: msg_ok_def)
  have okv: "msg_ok d (command_verify d r)" using assms(6) by (simp add: msg_ok_def)
  have bufr: "msg_buffer (command_read d r) =
      take 1 (msg_buffer r) @ ?data @ drop (1 + SPM_PAGESIZE d) (msg_buffer r)"
    using lenr by (simp add: command_read_def Let_def page read_loop_result rd)
  obtain a t where r: "msg_buffer r = a # t" using lenr by (cases "msg_buffer r") auto
  have tlr: "take (SPM_PAGESIZE d) (tl (msg_buffer (command_read d r))) = ?data"
    unfolding bufr using ld by (simp add: r)
  have bufv: "msg_buffer (command_verify d r) = (msg_buffer r)[1 := xor_bytes ?data]"
    by (simp add: command_verify_def Let_def page verify_loop_result rd)
  obtain b u where t: "t = b # u" using lenr r by (cases t) auto
  have tlv: "take 1 (tl (msg_buffer (command_verify d r))) = [xor_bytes ?data]"
    unfolding bufv by (simp add: r t)
  have c: "COMMAND_READ \<noteq> COMMAND_PING" "COMMAND_READ \<noteq> COMMAND_WRITE"
    "COMMAND_READ \<noteq> COMMAND_VERIFY" "COMMAND_VERIFY \<noteq> COMMAND_PING"
    "COMMAND_VERIFY \<noteq> COMMAND_WRITE"
    by (simp_all add: code_defs)
  have pn: "unat (msg_buffer r ! 1) < NUM_PAGES d" using assms(5,8) by simp
  have rdw: "msg_buffer r ! 0 = COMMAND_READ \<Longrightarrow>
      process_msg d r = reply_data REPLY_READ (SPM_PAGESIZE d) (command_read d r)"
    using c pn assms(9) by (simp add: process_msg_def Let_def)
  have vfw: "msg_buffer r ! 0 = COMMAND_VERIFY \<Longrightarrow>
      process_msg d r = reply_data REPLY_VERIFY 1 (command_verify d r)"
    using c pn assms(9) by (simp add: process_msg_def Let_def)
  show ?thesis
  proof (intro conjI impI)
    assume "msg_buffer r ! 0 = COMMAND_READ"
    then show "uart_out (process_msg d r) = uart_out r @ wire_frame (REPLY_READ # ?data)"
      by (simp add: rdw reply_data_wire [OF okr small] tlr)
  next
    assume "msg_buffer r ! 0 = COMMAND_VERIFY"
    then show "uart_out (process_msg d r) =
        uart_out r @ wire_frame [REPLY_VERIFY, xor_bytes ?data]"
      using reply_data_wire [OF okv, of 1 REPLY_VERIFY] tlv by (simp add: vfw)
  qed
qed

theorem write_then_read_verify_witness:
  "device_ok atmega8 \<and>
   msg_ok atmega8 (decoded_request atmega8 blank_flash
      (COMMAND_WRITE # 0x05 # replicate 64 0x5a @ [0x14])) \<and>
   unat (0x05 :: uint8_t) < NUM_PAGES atmega8 \<and>
   uart_out (process_msg atmega8
      (decoded_request atmega8
         (flash (process_msg atmega8 (decoded_request atmega8 blank_flash
            (COMMAND_WRITE # 0x05 # replicate 64 0x5a @ [0x14]))))
         [COMMAND_READ, 0x05, 0x17])) =
     wire_frame (REPLY_READ # replicate 64 0x5a) \<and>
   uart_out (process_msg atmega8
      (decoded_request atmega8
         (flash (process_msg atmega8 (decoded_request atmega8 blank_flash
            (COMMAND_WRITE # 0x05 # replicate 64 0x5a @ [0x14]))))
         [COMMAND_VERIFY, 0x05, 0x16])) =
     [0xf0, 0x00, 0x70, 0x01, 0x02, 0x03, 0x00, 0x00, 0x02, 0x03, 0xf7]"
proof -
  let ?w = "decoded_request atmega8 blank_flash (COMMAND_WRITE # 0x05 # replicate 64 0x5a @ [0x14])"
  let ?fl = "flash (process_msg atmega8 ?w)"
  let ?r = "decoded_request atmega8 ?fl [COMMAND_READ, 0x05, 0x17]"
  let ?v = "decoded_request atmega8 ?fl [COMMAND_VERIFY, 0x05, 0x16]"
  have okw: "msg_ok atmega8 ?w" and okr: "msg_ok atmega8 ?r" and okv: "msg_ok atmega8 ?v"
    by (rule msg_ok_decoded_request, simp add: atmega8_facts)+
  have w: "msg_buffer ?w ! 0 = COMMAND_WRITE" "payload_size ?w = SPM_PAGESIZE atmega8 + 1"
    "unat (msg_buffer ?w ! 1) < NUM_PAGES atmega8"
    by (simp_all add: decoded_request_fields atmega8_facts)
  have r: "flash ?r = ?fl" "msg_buffer ?r ! 1 = msg_buffer ?w ! 1" "payload_size ?r = 1"
    "msg_buffer ?r ! 0 = COMMAND_READ"
    by (simp_all add: decoded_request_fields)
  have v: "flash ?v = ?fl" "msg_buffer ?v ! 1 = msg_buffer ?w ! 1" "payload_size ?v = 1"
    "msg_buffer ?v ! 0 = COMMAND_VERIFY"
    by (simp_all add: decoded_request_fields)
  have data: "take (SPM_PAGESIZE atmega8) (drop 2 (msg_buffer ?w)) = replicate 64 0x5a"
    by (simp add: decoded_request_fields atmega8_facts)
  have rr: "uart_out (process_msg atmega8 ?r) = wire_frame (REPLY_READ # replicate 64 0x5a)"
    using write_then_read_verify [OF atmega8_facts(1) okw w okr r(1,2,3), unfolded data] r(4)
    by (simp add: decoded_request_fields(3))
  have "uart_out (process_msg atmega8 ?v) = wire_frame [REPLY_VERIFY, xor_bytes (replicate 64 0x5a)]"
    using write_then_read_verify [OF atmega8_facts(1) okw w okv v(1,2,3), unfolded data] v(4)
    by (simp add: decoded_request_fields(3))
  then have "uart_out (process_msg atmega8 ?v) = wire_frame [REPLY_VERIFY, 0]"
    by (simp add: xor_bytes_replicate)
  then have vv: "uart_out (process_msg atmega8 ?v) =
      [0xf0, 0x00, 0x70, 0x01, 0x02, 0x03, 0x00, 0x00, 0x02, 0x03, 0xf7]"
    by (simp add: wire_frame_def encode_bytes_def xor_bytes_def code_defs)
  have n: "unat (0x05 :: uint8_t) < NUM_PAGES atmega8" by (simp add: atmega8_facts)
  show ?thesis using atmega8_facts(1) okw n rr vv by simp
qed

text \<open>
  Claim C7. A start delimiter \<open>0xf0\<close> that arrives while a frame is in progress sends
  exactly one \<open>Error(IncompleteMessage)\<close> reply and then starts the new frame: state
  \<open>MatchingHeader\<close>, with header position, checksum and payload size zero.
\<close>

theorem start_inside_frame:
  assumes "state m \<noteq> STATE_IDLE" and "msg_ok d m"
  shows "loop_step d m 0xf0 =
     Some (m\<lparr>state := STATE_MATCHING_HEADER, checksum := 0, bytes_read := 0, payload_size := 0,
             msg_buffer := (msg_buffer m)[0 := REPLY_ERROR, 1 := ERROR_INCOMPLETE_MESSAGE],
             uart_out := uart_out m @
               [0xf0, 0x00, 0x70, 0x01, 0x02, 0x01, 0x00, 0x03, 0x02, 0x02, 0xf7]\<rparr>)"
proof -
  have l: "2 \<le> length (msg_buffer m)"
    using assms(2) by (simp add: msg_ok_def sizeof_buffer_def)
  have h: "msg_header m = [0x00, 0x70, 0x01]"
    using assms(2) by (simp add: msg_ok_def MIDI_ID_def VERSION_def)
  show ?thesis
    using assms(1) by (simp add: loop_step_def reply_error_eq [OF l] h ERROR_INCOMPLETE_MESSAGE_def)
qed

theorem start_inside_frame_witness:
  "state ((loop_init atmega8 blank_flash 0 0)\<lparr>state := STATE_MATCHING_HEADER\<rparr>) \<noteq> STATE_IDLE \<and>
   msg_ok atmega8 ((loop_init atmega8 blank_flash 0 0)\<lparr>state := STATE_MATCHING_HEADER\<rparr>) \<and>
   map_option uart_out
     (loop_step atmega8 ((loop_init atmega8 blank_flash 0 0)\<lparr>state := STATE_MATCHING_HEADER\<rparr>)
        0xf0) =
     Some [0xf0, 0x00, 0x70, 0x01, 0x02, 0x01, 0x00, 0x03, 0x02, 0x02, 0xf7] \<and>
   map_option state
     (loop_step atmega8 ((loop_init atmega8 blank_flash 0 0)\<lparr>state := STATE_MATCHING_HEADER\<rparr>)
        0xf0) = Some STATE_MATCHING_HEADER"
proof -
  let ?m = "(loop_init atmega8 blank_flash 0 0)\<lparr>state := STATE_MATCHING_HEADER\<rparr>"
  have h1: "state ?m \<noteq> STATE_IDLE" by simp
  have h2: "msg_ok atmega8 ?m" by (simp add: msg_ok_def loop_init_def)
  show ?thesis
    using start_inside_frame [OF h1 h2] h1 h2 by (simp add: loop_init_def)
qed

text \<open>
  Claim C8. A received byte with the high bit set that is neither the start delimiter
  \<open>0xf0\<close> nor the end delimiter \<open>0xf7\<close> is never taken as data: in every parser
  state the iteration leaves the whole machine as it was, so the byte is not stored in
  the buffer, not compared with a header byte and not XORed into the checksum.
\<close>

theorem other_status_bytes_ignored:
  "0x80 \<le> byte \<Longrightarrow> byte \<noteq> 0xf0 \<Longrightarrow> byte \<noteq> 0xf7 \<Longrightarrow> loop_step d m byte = Some m"
  by (simp add: loop_step_def not_less [symmetric])

theorem other_status_bytes_ignored_witness:
  "(0x80 :: uint8_t) \<le> 0xfe \<and> (0xfe :: uint8_t) \<noteq> 0xf0 \<and> (0xfe :: uint8_t) \<noteq> 0xf7 \<and>
   loop_step atmega8 ((loop_init atmega8 blank_flash 0 0)\<lparr>state := STATE_READING_BODY\<rparr>) 0xfe
     = Some ((loop_init atmega8 blank_flash 0 0)\<lparr>state := STATE_READING_BODY\<rparr>)"
  using other_status_bytes_ignored
    [of "0xfe" atmega8 "(loop_init atmega8 blank_flash 0 0)\<lparr>state := STATE_READING_BODY\<rparr>"]
  by simp

text \<open>
  Claim C9. The parser never writes past the end of the message buffer. An iteration is
  \<open>None\<close> exactly when it would index \<open>msg.buffer\<close> or \<open>msg.header\<close> out of bounds;
  from the initial state every input sequence runs without that. While the parser is in
  \<open>ReadingBody\<close> the index \<open>payload_size\<close> is below the capacity; in \<open>ExpectingEnd\<close>
  it equals the capacity and every further data byte is answered with
  \<open>Error(InvalidPayloadSize)\<close> and not stored.
\<close>

theorem buffer_never_overrun:
  "sizeof_buffer d = SPM_PAGESIZE d + 3 \<and>
   (\<exists>m. loop_run d (loop_init d fl cs0 br0) bytes = Some m \<and>
       length (msg_buffer m) = sizeof_buffer d \<and>
       (\<not> jumped m \<longrightarrow>
          (state m = STATE_READING_BODY \<longrightarrow> payload_size m < sizeof_buffer d) \<and>
          (state m = STATE_EXPECTING_END \<longrightarrow>
             payload_size m = sizeof_buffer d \<and>
             (\<forall>byte. byte < 0x80 \<longrightarrow>
                loop_step d m byte =
                  Some (m\<lparr>state := STATE_IDLE,
                          msg_buffer :=
                            (msg_buffer m)[0 := REPLY_ERROR, 1 := ERROR_INVALID_PAYLOAD_SIZE],
                          uart_out := uart_out m @
                            [0xf0, 0x00, 0x70, 0x01, 0x02, 0x01, 0x00, 0x07, 0x02, 0x06,
                             0xf7]\<rparr>)))))"
proof -
  obtain m where r: "loop_run d (loop_init d fl cs0 br0) bytes = Some m"
    and i: "parser_inv d m"
    using loop_run_inv [OF parser_inv_init] by blast
  have ok: "msg_ok d m" using i by (simp add: parser_inv_def)
  show ?thesis
    using r i expecting_end_step [OF ok] msg_okD(3) [OF ok]
    by (auto simp: parser_inv_def sizeof_buffer_def)
qed

theorem buffer_never_overrun_witness:
  "\<exists>m. loop_run atmega8 (loop_init atmega8 blank_flash 0 0)
          (0xf0 # 0x00 # 0x70 # 0x01 # encode_bytes (replicate 67 0x5a)) = Some m \<and>
       \<not> jumped m \<and> state m = STATE_EXPECTING_END \<and> payload_size m = 67 \<and>
       length (msg_buffer m) = 67 \<and>
       loop_step atmega8 m 0x05 =
         Some (m\<lparr>state := STATE_IDLE,
                 msg_buffer := (msg_buffer m)[0 := REPLY_ERROR, 1 := ERROR_INVALID_PAYLOAD_SIZE],
                 uart_out := uart_out m @
                   [0xf0, 0x00, 0x70, 0x01, 0x02, 0x01, 0x00, 0x07, 0x02, 0x06, 0xf7]\<rparr>)"
proof -
  let ?i = "loop_init atmega8 blank_flash 0 0"
  let ?m1 = "?i\<lparr>state := STATE_READING_BODY, checksum := 0, bytes_read := 0, payload_size := 0\<rparr>"
  let ?bytes = "0xf0 # 0x00 # 0x70 # 0x01 # encode_bytes (replicate 67 0x5a)"
  have d: "page_size_ok atmega8" by (simp add: page_size_ok_def atmega8_def)
  have sz: "sizeof_buffer atmega8 = 67" by (simp add: sizeof_buffer_def atmega8_def)
  have ok: "msg_ok atmega8 ?m1" by (simp add: msg_ok_def loop_init_def)
  have hdr: "loop_run atmega8 ?i ?bytes = loop_run atmega8 ?m1 (encode_bytes (replicate 67 0x5a))"
    by (rule header_run) (simp_all add: msg_ok_def loop_init_def)
  obtain m' where r: "loop_run atmega8 ?m1 (encode_bytes (replicate 67 0x5a)) = Some m'"
    and st: "state m' = STATE_EXPECTING_END" and nj: "\<not> jumped m'"
    using reading_body_encoded [OF d ok, of "replicate 67 0x5a"] sz
    by (auto simp: loop_init_def)
  obtain m where run: "loop_run atmega8 ?i ?bytes = Some m"
    and len: "length (msg_buffer m) = sizeof_buffer atmega8"
    and inv: "\<not> jumped m \<longrightarrow>
          (state m = STATE_READING_BODY \<longrightarrow> payload_size m < sizeof_buffer atmega8) \<and>
          (state m = STATE_EXPECTING_END \<longrightarrow>
             payload_size m = sizeof_buffer atmega8 \<and>
             (\<forall>byte. byte < 0x80 \<longrightarrow>
                loop_step atmega8 m byte =
                  Some (m\<lparr>state := STATE_IDLE,
                          msg_buffer :=
                            (msg_buffer m)[0 := REPLY_ERROR, 1 := ERROR_INVALID_PAYLOAD_SIZE],
                          uart_out := uart_out m @
                            [0xf0, 0x00, 0x70, 0x01, 0x02, 0x01, 0x00, 0x07, 0x02, 0x06,
                             0xf7]\<rparr>)))"
    using buffer_never_overrun [of atmega8 blank_flash 0 0 ?bytes] by blast
  have "m = m'" using run hdr r by simp
  then have "\<not> jumped m" "state m = STATE_EXPECTING_END" using st nj by simp_all
  with run len inv sz show ?thesis by simp
qed

text \<open>
  Claim C10, as stated, fails for a frame that fills the buffer, as every Write frame
  does. On the 8 KiB device the body of a Write to page 5 has 134 nibble bytes; after
  them the parser is in \<open>ExpectingEnd\<close>. One more nibble makes the count odd (135): it
  is not stored but answered with \<open>Error(InvalidPayloadSize)\<close>, the end delimiter that
  follows is ignored and nothing is programmed. Without that nibble the same frame is
  answered with Success and the page is programmed.
\<close>

theorem full_write_frame_extra_nibble_rejected:
  "length (encode_bytes (COMMAND_WRITE # 0x05 # replicate 64 0x5a @ [0x14]) @ [0x07]) = 135 \<and>
   map_option uart_out
     (loop_run atmega8 (loop_init atmega8 blank_flash 0 0)
        (0xf0 # 0x00 # 0x70 # 0x01 #
         encode_bytes (COMMAND_WRITE # 0x05 # replicate 64 0x5a @ [0x14]) @ [0x07, 0xf7])) =
     Some [0xf0, 0x00, 0x70, 0x01, 0x02, 0x01, 0x00, 0x07, 0x02, 0x06, 0xf7] \<and>
   flash (the
     (loop_run atmega8 (loop_init atmega8 blank_flash 0 0)
        (0xf0 # 0x00 # 0x70 # 0x01 #
         encode_bytes (COMMAND_WRITE # 0x05 # replicate 64 0x5a @ [0x14]) @ [0x07, 0xf7]))) 320 =
     0xff \<and>
   map_option uart_out
     (loop_run atmega8 (loop_init atmega8 blank_flash 0 0)
        (0xf0 # 0x00 # 0x70 # 0x01 #
         encode_bytes (COMMAND_WRITE # 0x05 # replicate 64 0x5a @ [0x14]) @ [0xf7])) =
     Some [0xf0, 0x00, 0x70, 0x01, 0x02, 0x00, 0x02, 0x00, 0xf7] \<and>
   flash (the
     (loop_run atmega8 (loop_init atmega8 blank_flash 0 0)
        (0xf0 # 0x00 # 0x70 # 0x01 #
         encode_bytes (COMMAND_WRITE # 0x05 # replicate 64 0x5a @ [0x14]) @ [0xf7]))) 320 =
     0x5a"
proof -
  let ?bs = "COMMAND_WRITE # 0x05 # replicate 64 0x5a @ [0x14]"
  let ?i = "loop_init atmega8 blank_flash 0 0"
  have len: "length ?bs = sizeof_buffer atmega8" by (simp add: atmega8_facts)
  have odd: "length (encode_bytes ?bs @ [0x07]) = 135" by (simp add: length_encode_bytes)
  have x: "xor_bytes ?bs = 0"
    by (simp add: xor_bytes_Cons xor_bytes_snoc xor_bytes_replicate COMMAND_WRITE_def)
  obtain m where run: "loop_run atmega8 ?i (0xf0 # 0x00 # 0x70 # 0x01 # encode_bytes ?bs) = Some m"
    and buf: "msg_buffer m = ?bs @ replicate (sizeof_buffer atmega8 - length ?bs) 0"
    and f: "payload_size m = length ?bs" "checksum m = xor_bytes ?bs"
      "state m = STATE_EXPECTING_END" "uart_out m = []" "flash m = blank_flash" "\<not> jumped m"
      "msg_ok atmega8 m"
    using frame_body_run [OF atmega8_facts(5), of ?bs blank_flash 0 0] len
    by (auto simp del: length_Cons length_append replicate.simps)
  let ?e = "m\<lparr>state := STATE_IDLE,
             msg_buffer := (msg_buffer m)[0 := REPLY_ERROR, 1 := ERROR_INVALID_PAYLOAD_SIZE],
             uart_out := uart_out m @
               [0xf0, 0x00, 0x70, 0x01, 0x02, 0x01, 0x00, 0x07, 0x02, 0x06, 0xf7]\<rparr>"
  have s1: "loop_step atmega8 m 0x07 = Some ?e"
    by (rule expecting_end_step [OF f(7) f(3)]) simp
  have s2: "loop_step atmega8 ?e 0xf7 = Some ?e" by (simp add: loop_step_def)
  have "loop_run atmega8 ?i ((0xf0 # 0x00 # 0x70 # 0x01 # encode_bytes ?bs) @ [0x07, 0xf7]) =
      Some ?e"
    unfolding loop_run_append run using f(6) s1 s2 by simp
  then have with_nibble:
    "loop_run atmega8 ?i (0xf0 # 0x00 # 0x70 # 0x01 # encode_bytes ?bs @ [0x07, 0xf7]) = Some ?e"
    by simp
  let ?x = "m\<lparr>payload_size := 65\<rparr>"
  have st: "loop_step atmega8 m 0xf7 = Some (end_frame (process_msg atmega8 ?x))"
    using f(1,2,3) x by (simp add: loop_step_def)
  have okx: "msg_ok atmega8 ?x" using f(7) by (simp add: msg_ok_def)
  have okw: "msg_ok atmega8 (command_write atmega8 ?x)" using okx by (simp add: msg_ok_def)
  have b: "msg_buffer ?x ! 0 = COMMAND_WRITE" "msg_buffer ?x ! 1 = 0x05" "msg_buffer ?x ! 2 = 0x5a"
    by (simp_all add: buf nth_append)
  have p: "process_msg atmega8 ?x = reply_success (command_write atmega8 ?x)"
    using b by (simp add: process_msg_def Let_def code_defs atmega8_facts)
  have pa: "page_address atmega8 ?x = 320"
    using b(2) by (simp add: page_address_def atmega8_facts)
  have fl: "flash (end_frame (process_msg atmega8 ?x)) 320 = 0x5a"
    using b(3) by (simp add: p command_write_flash pa atmega8_facts)
  have u: "uart_out (end_frame (process_msg atmega8 ?x)) =
      [0xf0, 0x00, 0x70, 0x01, 0x02, 0x00, 0x02, 0x00, 0xf7]"
    using f(4) by (simp add: p reply_success_wire [OF okw])
  have "loop_run atmega8 ?i ((0xf0 # 0x00 # 0x70 # 0x01 # encode_bytes ?bs) @ [0xf7]) =
      Some (end_frame (process_msg atmega8 ?x))"
    unfolding loop_run_append run using f(6) st by simp
  then have without:
    "loop_run atmega8 ?i (0xf0 # 0x00 # 0x70 # 0x01 # encode_bytes ?bs @ [0xf7]) =
      Some (end_frame (process_msg atmega8 ?x))"
    by simp
  show ?thesis
    unfolding with_nibble without using odd u fl f(4,5) by (simp add: blank_flash_def)
qed

text \<open>
  Claim C10, amended. A data nibble that arrives as the first of a pair while the
  parser is in \<open>ReadingBody\<close> (the buffer is not yet full) is not rejected: it is stored
  as a half-built byte at \<open>msg.buffer[payload_size]\<close>, nothing is sent, and checksum
  and payload size stay as they were. If the end delimiter follows, the frame is
  finalized as if that nibble had not been sent: the same reply, flash, parser state,
  payload size and checksum.
\<close>

theorem unpaired_nibble_discarded:
  assumes "device_ok d" and "loop_run d (loop_init d fl cs0 br0) bytes = Some m"
    and "\<not> jumped m" and "state m = STATE_READING_BODY" and "even (bytes_read m)"
    and "nibble \<le> 0x0f"
  shows "\<exists>m1 e e1.
     loop_step d m nibble = Some m1 \<and>
     m1 = m\<lparr>bytes_read := (bytes_read m + 1) mod 65536,
            msg_buffer := (msg_buffer m)[payload_size m := push_bit 4 nibble]\<rparr> \<and>
     loop_step d m 0xf7 = Some e \<and> loop_step d m1 0xf7 = Some e1 \<and>
     uart_out e1 = uart_out e \<and> flash e1 = flash e \<and> state e1 = state e \<and>
     jumped e1 = jumped e \<and> payload_size e1 = payload_size e \<and> checksum e1 = checksum e"
proof -
  have pso: "page_size_ok d" using assms(1) by (simp add: device_ok_def)
  let ?k = "payload_size m"
  let ?m1 = "m\<lparr>bytes_read := (bytes_read m + 1) mod 65536,
              msg_buffer := (msg_buffer m)[?k := push_bit 4 nibble]\<rparr>"
  obtain m' where "loop_run d (loop_init d fl cs0 br0) bytes = Some m'" and "parser_inv d m'"
    using loop_run_inv [OF parser_inv_init] by blast
  then have pi: "parser_inv d m" using assms(2) by simp
  then have ok: "msg_ok d m" by (simp add: parser_inv_def)
  have k: "?k < sizeof_buffer d" using pi assms(3,4) by (simp add: parser_inv_def)
  have ok1: "msg_ok d ?m1" using ok by (simp add: msg_ok_def)
  have nib: "nibble < 0x80" "\<not> 0x0f < nibble" using nibble_is_data [OF assms(6)] by simp_all
  have par: "bytes_read m mod 2 \<noteq> 1" using assms(5) by (simp add: mod2_eq_if)
  have s1: "loop_step d m nibble = Some ?m1"
    using assms(4) k nib par by (simp add: loop_step_def Let_def)
  let ?x = "m\<lparr>payload_size := (?k + 65536 - 2) mod 65536\<rparr>"
  let ?y = "?m1\<lparr>payload_size := (?k + 65536 - 2) mod 65536\<rparr>"
  have small: "sizeof_buffer d < 65536"
    using assms(1) by (simp add: device_ok_def page_size_ok_def sizeof_buffer_def)
  have sub: "(?k + 65536 - 2) mod 65536 = ?k - 2" if "1 < ?k"
  proof -
    have "?k + 65536 - 2 = (?k - 2) + 65536" using that by simp
    then have "(?k + 65536 - 2) mod 65536 = (?k - 2) mod 65536" by (metis mod_add_self2)
    then show ?thesis using k small by simp
  qed
  have okx: "msg_ok d ?x" and oky: "msg_ok d ?y" using ok by (simp_all add: msg_ok_def)
  have agree: "uart_out (process_msg d ?y) = uart_out (process_msg d ?x) \<and>
      flash (process_msg d ?y) = flash (process_msg d ?x) \<and>
      jumped (process_msg d ?y) = jumped (process_msg d ?x)" if big: "1 < ?k"
  proof -
    have b0: "msg_buffer ?y ! 0 = msg_buffer ?x ! 0" and b1: "msg_buffer ?y ! 1 = msg_buffer ?x ! 1"
      using big by simp_all
    have nw: "payload_size ?x \<noteq> SPM_PAGESIZE d + 1" "payload_size ?y \<noteq> SPM_PAGESIZE d + 1"
      using sub [OF big] k big by (simp_all add: sizeof_buffer_def)
    have "uart_out (process_msg d ?y) = uart_out (process_msg d ?x)"
      unfolding uart_out_process_msg [OF pso okx] uart_out_process_msg [OF pso oky] b0 b1
      by simp
    moreover have "flash (process_msg d ?y) = flash (process_msg d ?x)"
      unfolding flash_process_msg [OF nw(1)] flash_process_msg [OF nw(2)] by simp
    moreover have "jumped (process_msg d ?y) = jumped (process_msg d ?x)"
      using big by (simp add: jumped_process_msg)
    ultimately show ?thesis by simp
  qed
  define e where "e = (if ?k \<le> 1 then end_frame (reply_error ERROR_INVALID_FORMAT m)
     else if checksum m \<noteq> 0 then end_frame (reply_error ERROR_INVALID_CHECKSUM m)
     else end_frame (process_msg d ?x))"
  define e1 where "e1 = (if ?k \<le> 1 then end_frame (reply_error ERROR_INVALID_FORMAT ?m1)
     else if checksum m \<noteq> 0 then end_frame (reply_error ERROR_INVALID_CHECKSUM ?m1)
     else end_frame (process_msg d ?y))"
  have se: "loop_step d m 0xf7 = Some e"
    using assms(4) by (simp add: loop_step_def e_def)
  have se1: "loop_step d ?m1 0xf7 = Some e1"
    using assms(4) by (simp add: loop_step_def e1_def)
  have eq: "uart_out e1 = uart_out e \<and> flash e1 = flash e \<and> state e1 = state e \<and>
     jumped e1 = jumped e \<and> payload_size e1 = payload_size e \<and> checksum e1 = checksum e"
  proof (cases "?k \<le> 1")
    case True
    then show ?thesis
      using reply_error_frame [OF ok1, of ERROR_INVALID_FORMAT]
      by (simp add: e_def e1_def end_frame_def reply_error_frame [OF ok])
  next
    case False
    then have big: "1 < ?k" by simp
    show ?thesis
    proof (cases "checksum m \<noteq> 0")
      case True
      with False show ?thesis
        using reply_error_frame [OF ok1, of ERROR_INVALID_CHECKSUM]
        by (simp add: e_def e1_def end_frame_def reply_error_frame [OF ok])
    next
      case False
      with big agree [OF big] show ?thesis
        by (simp add: e_def e1_def end_frame_def)
    qed
  qed
  show ?thesis using s1 se se1 eq by blast
qed

theorem unpaired_nibble_discarded_witness:
  "device_ok atmega8 \<and> (0x07 :: uint8_t) \<le> 0x0f \<and>
   (\<exists>m m1 e e1.
      loop_run atmega8 (loop_init atmega8 blank_flash 0 0)
        [0xf0, 0x00, 0x70, 0x01, 0x01, 0x00, 0x01, 0x00] = Some m \<and>
      \<not> jumped m \<and> state m = STATE_READING_BODY \<and> even (bytes_read m) \<and>
      payload_size m = 2 \<and> checksum m = 0 \<and>
      loop_step atmega8 m 0x07 = Some m1 \<and> state m1 = STATE_READING_BODY \<and>
      uart_out m1 = uart_out m \<and> payload_size m1 = 2 \<and> checksum m1 = 0 \<and>
      msg_buffer m1 ! 2 = 0x70 \<and>
      loop_step atmega8 m 0xf7 = Some e \<and> loop_step atmega8 m1 0xf7 = Some e1 \<and>
      uart_out e1 = uart_out e \<and> flash e1 = flash e \<and> state e1 = state e \<and>
      jumped e1 = jumped e)"
proof -
  have n: "(0x07 :: uint8_t) \<le> 0x0f" by simp
  have e: "encode_bytes [0x10, 0x10] = [0x01, 0x00, 0x01, 0x00]" by (simp add: encode_bytes_def)
  obtain m where run: "loop_run atmega8 (loop_init atmega8 blank_flash 0 0)
           [0xf0, 0x00, 0x70, 0x01, 0x01, 0x00, 0x01, 0x00] = Some m"
    and buf: "msg_buffer m = [0x10, 0x10] @ replicate 65 0"
    and f: "payload_size m = 2" "checksum m = 0" "state m = STATE_READING_BODY"
      "even (bytes_read m)" "\<not> jumped m"
    using frame_body_run [OF atmega8_facts(5), of "[0x10, 0x10]" blank_flash 0 0]
    by (auto simp: e atmega8_facts xor_bytes_def)
  obtain m1 e e1 where s: "loop_step atmega8 m 0x07 = Some m1"
    and m1: "m1 = m\<lparr>bytes_read := (bytes_read m + 1) mod 65536,
            msg_buffer := (msg_buffer m)[payload_size m := push_bit 4 0x07]\<rparr>"
    and fin: "loop_step atmega8 m 0xf7 = Some e" "loop_step atmega8 m1 0xf7 = Some e1"
      "uart_out e1 = uart_out e" "flash e1 = flash e" "state e1 = state e"
      "jumped e1 = jumped e"
    using unpaired_nibble_discarded [OF atmega8_facts(1) run f(5,3,4) n] by blast
  have h: "state m1 = STATE_READING_BODY" "uart_out m1 = uart_out m" "payload_size m1 = 2"
    "checksum m1 = 0" "msg_buffer m1 ! 2 = 0x70"
    using f buf by (simp_all add: m1)
  show ?thesis using atmega8_facts(1) n run f s h fin by blast
qed

end
